theory Spec2Isabelle
  imports Complex_Main
begin

text \<open>
  A model of the Telegram price bot. The repository holds three drafts of one program;
  the definitions follow the last one (\<^verbatim>\<open>src/unnamed/part_001\<close>). The earlier draft
  \<^verbatim>\<open>src/unnamed/part_000\<close> has the same handlers and the same alert checker (it differs
  in the timer period, the request timeouts and where a handler's \<open>try\<close> begins), and
  \<^verbatim>\<open>src/index.js\<close> has the watch-list commands only.
\<close>

section \<open>JavaScript values used by the bot\<close>

text \<open>
  Prices and targets are JavaScript Numbers. The bot never does arithmetic on them: it
  only tests them for truthiness and compares them. A Number is modelled by its
  mathematical value: \<open>NaN\<close>, the two infinities, or a finite rational (every finite
  double is a rational; \<open>+0\<close> and \<open>-0\<close>, which no operation of the bot tells
  apart, are both \<open>Fin 0\<close>).
\<close>

datatype number = NaN | NegInf | Fin rat | PosInf

text \<open>
  A value read from the price response, \<open>data[id]?.usd\<close>: \<open>undefined\<close> when the
  entry or its \<open>usd\<close> field is absent, a Number otherwise.
\<close>

datatype jsval = Undefined | Num number

fun to_number :: "jsval \<Rightarrow> number" where
  "to_number Undefined = NaN"
| "to_number (Num n) = n"

text \<open>The relational comparison of two Numbers; any comparison with \<open>NaN\<close> is false.\<close>

fun num_lt :: "number \<Rightarrow> number \<Rightarrow> bool" where
  "num_lt NaN b = False"
| "num_lt a NaN = False"
| "num_lt (Fin a) (Fin b) = (a < b)"
| "num_lt PosInf b = False"
| "num_lt a NegInf = False"
| "num_lt NegInf b = True"
| "num_lt a PosInf = True"

definition num_le :: "number \<Rightarrow> number \<Rightarrow> bool" where
  "num_le a b = (a \<noteq> NaN \<and> b \<noteq> NaN \<and> \<not> num_lt b a)"

text \<open>The operators \<open>x > y\<close>, \<open>x >= y\<close> and \<open>x <= y\<close>, after \<open>ToNumber\<close>.\<close>

definition js_gt :: "jsval \<Rightarrow> jsval \<Rightarrow> bool" where
  "js_gt x y = num_lt (to_number y) (to_number x)"

definition js_ge :: "jsval \<Rightarrow> jsval \<Rightarrow> bool" where
  "js_ge x y = num_le (to_number y) (to_number x)"

definition js_le :: "jsval \<Rightarrow> jsval \<Rightarrow> bool" where
  "js_le x y = num_le (to_number x) (to_number y)"

text \<open>\<open>!v\<close>: \<open>undefined\<close>, \<open>NaN\<close> and zero are falsy, every other Number is truthy.\<close>

fun falsy :: "jsval \<Rightarrow> bool" where
  "falsy Undefined = True"
| "falsy (Num n) = (n = NaN \<or> n = Fin 0)"

text \<open>
  \<open>String.prototype.toLowerCase\<close>, on the ASCII letters (bytes outside \<open>A\<close>..\<open>Z\<close>
  are left as they are). No theorem below depends on how a string is lowercased.
\<close>

definition lower_char :: "char \<Rightarrow> char" where
  "lower_char c =
     (if (65::nat) \<le> of_char c \<and> of_char c \<le> (90::nat)
      then char_of (of_char c + (32::nat)) else c)"

definition toLowerCase :: "string \<Rightarrow> string" where
  "toLowerCase s = map lower_char s"

text \<open>\<open>text.split(" ")\<close>: the pieces between single spaces; never an empty array.\<close>

fun split_space :: "string \<Rightarrow> string list" where
  "split_space [] = [[]]"
| "split_space (c # cs) =
     (if c = CHR '' '' then [] # split_space cs
      else (case split_space cs of
              [] \<Rightarrow> [[c]]
            | t # ts \<Rightarrow> (c # t) # ts))"

text \<open>\<open>parts[i]\<close>: \<open>undefined\<close> (here \<open>None\<close>) past the end of the array.\<close>

fun nth_opt :: "'a list \<Rightarrow> nat \<Rightarrow> 'a option" where
  "nth_opt [] i = None"
| "nth_opt (x # xs) 0 = Some x"
| "nth_opt (x # xs) (Suc i) = nth_opt xs i"

text \<open>\<open>Array.prototype.join\<close> with a separator.\<close>

fun join :: "string \<Rightarrow> string list \<Rightarrow> string" where
  "join sep [] = []"
| "join sep [x] = x"
| "join sep (x # y # ys) = x @ sep @ join sep (y # ys)"

section \<open>Data model\<close>

text \<open>The sub-document of \<open>UserSchema.alerts\<close>.\<close>

record alert =
  coinId :: string
  targetPrice :: number
  direction :: string

text \<open>A document of the \<open>User\<close> collection (\<open>UserSchema\<close>).\<close>

record user =
  telegramId :: string
  firstName :: string
  favorites :: "string list"
  alerts :: "alert list"

text \<open>
  The in-memory \<open>coinMap\<close>: lowercase ticker symbol to coin id. \<open>coinMap.has(k)\<close> is
  \<open>m k \<noteq> None\<close> and \<open>coinMap.get(k)\<close> is the value stored.
\<close>

type_synonym coin_map = "string \<rightharpoonup> string"

record coin =
  coin_symbol :: string
  coin_id :: string

text \<open>
  \<open>initCoinList\<close>: every coin of the fetched catalogue is stored under its lowercased
  symbol, a later coin replacing an earlier one with the same symbol.
\<close>

definition initCoinList :: "coin list \<Rightarrow> coin_map" where
  "initCoinList catalogue =
     fold (\<lambda>c m. m(toLowerCase (coin_symbol c) \<mapsto> coin_id c)) catalogue Map.empty"

text \<open>
  The expression every command uses to turn the user's input into a coin id:
  \<open>coinMap.has(inputLower) ? coinMap.get(inputLower) : inputLower\<close>.
\<close>

definition resolve :: "coin_map \<Rightarrow> string \<Rightarrow> string" where
  "resolve coinMap rawInput =
     (let inputLower = toLowerCase rawInput
      in case coinMap inputLower of
           Some mapped \<Rightarrow> mapped
         | None \<Rightarrow> inputLower)"

text \<open>
  One entry of the price response \<open>{id: {usd: price}}\<close>, and the response itself: a
  sparse mapping, with no entry for an identifier the price source does not know.
\<close>

record quote =
  usd :: jsval

type_synonym price_data = "string \<rightharpoonup> quote"

text \<open>\<open>data[id]?.usd\<close>.\<close>

definition usd_at :: "price_data \<Rightarrow> string \<Rightarrow> jsval" where
  "usd_at data k = (case data k of None \<Rightarrow> Undefined | Some q \<Rightarrow> usd q)"

section \<open>The outside world: store, chat transport, price source\<close>

text \<open>
  What a handler tells the user with \<open>ctx.reply\<close> (the wording is left out). The
  handlers do not wait for a reply to be delivered, so a reply is recorded as given.
\<close>

datatype reply =
    ProvideSymbol
  | AlreadyWatching string
  | Added string
  | AddFailed
  | AlertUsage
  | CoinNotFound
  | AlertSet string string number
  | AlertError

text \<open>
  The alert message handed to \<open>bot.telegram.sendMessage\<close>: the chat it goes to, the
  alert it reports and the price quoted in it.
\<close>

record notification =
  recipient :: string
  about :: alert
  at_price :: jsval

text \<open>The exceptions a tick or a command can meet.\<close>

datatype error = StoreError | PriceUnavailable | RateLimited | NotifyError

text \<open>
  Everything the program changes: the documents of the \<open>User\<close> collection (one per
  \<open>telegramId\<close>, which the schema declares unique), every successful
  \<open>user.save()\<close> in order, the alert messages delivered, the replies given and the
  errors written with \<open>console.error\<close>.
\<close>

record world =
  db :: "user list"
  writes :: "user list"
  sent :: "notification list"
  replies :: "reply list"
  errors :: "error list"

text \<open>
  The behaviour of the external services, which the program does not control: whether a
  store operation or a delivery is rejected (it may depend on everything that has
  happened so far), and what the price request for a comma-joined list of ids answers.
\<close>

record env =
  find_fails :: "world \<Rightarrow> bool"
  findOne_fails :: "world \<Rightarrow> string \<Rightarrow> bool"
  save_fails :: "world \<Rightarrow> user \<Rightarrow> bool"
  send_fails :: "world \<Rightarrow> notification \<Rightarrow> bool"
  fetch :: "world \<Rightarrow> string \<Rightarrow> error + price_data"

text \<open>An awaited call either returns a value or throws; both leave a world behind.\<close>

datatype 'a outcome = Ok 'a world | Thrown error world

definition ctx_reply :: "reply \<Rightarrow> world \<Rightarrow> world" where
  "ctx_reply r w = w\<lparr>replies := replies w @ [r]\<rparr>"

definition sendMessage :: "env \<Rightarrow> notification \<Rightarrow> world \<Rightarrow> unit outcome" where
  "sendMessage e n w =
     (if send_fails e w n then Thrown NotifyError w
      else Ok () (w\<lparr>sent := sent w @ [n]\<rparr>))"

text \<open>Writing a document: it replaces the stored one with its \<open>telegramId\<close>, or is added.\<close>

definition store :: "user \<Rightarrow> user list \<Rightarrow> user list" where
  "store u docs =
     (if telegramId u \<in> set (map telegramId docs)
      then map (\<lambda>v. if telegramId v = telegramId u then u else v) docs
      else docs @ [u])"

definition save :: "env \<Rightarrow> user \<Rightarrow> world \<Rightarrow> unit outcome" where
  "save e u w =
     (if save_fails e w u then Thrown StoreError w
      else Ok () (w\<lparr>db := store u (db w), writes := writes w @ [u]\<rparr>))"

text \<open>The update a command receives: \<open>ctx.from.id\<close>, \<open>ctx.from.first_name\<close>, \<open>ctx.message.text\<close>.\<close>

record ctx =
  from_id :: string
  first_name :: string
  message_text :: string

text \<open>\<open>getUser\<close>: the stored user of the sender, created and saved on first contact.\<close>

definition getUser :: "env \<Rightarrow> ctx \<Rightarrow> world \<Rightarrow> user outcome" where
  "getUser e c w =
     (if findOne_fails e w (from_id c) then Thrown StoreError w
      else case find (\<lambda>u. telegramId u = from_id c) (db w) of
             Some u \<Rightarrow> Ok u w
           | None \<Rightarrow>
               (let u = \<lparr>telegramId = from_id c, firstName = first_name c,
                         favorites = [], alerts = []\<rparr>
                in case save e u w of
                     Thrown x w' \<Rightarrow> Thrown x w'
                   | Ok _ w' \<Rightarrow> Ok u w'))"

section \<open>The \<open>add\<close> command\<close>

text \<open>The handler (\<^verbatim>\<open>part_001\<close>, lines 109 to 137; \<^verbatim>\<open>index.js\<close>, lines 87 to 117).\<close>

definition add_body :: "env \<Rightarrow> coin_map \<Rightarrow> ctx \<Rightarrow> world \<Rightarrow> unit outcome" where
  "add_body e coinMap c w =
     (let parts = split_space (message_text c) in
      (case nth_opt parts 1 of
         None \<Rightarrow> Ok () (ctx_reply ProvideSymbol w)
       | Some rawInput \<Rightarrow>
           (if rawInput = [] then Ok () (ctx_reply ProvideSymbol w)
            else
              (let cid = resolve coinMap rawInput in
               (case getUser e c w of
                  Thrown x w1 \<Rightarrow> Thrown x w1
                | Ok u w1 \<Rightarrow>
                    (if cid \<in> set (favorites u)
                     then Ok () (ctx_reply (AlreadyWatching cid) w1)
                     else
                       (case save e (u\<lparr>favorites := favorites u @ [cid]\<rparr>) w1 of
                          Thrown x w2 \<Rightarrow> Thrown x w2
                        | Ok _ w2 \<Rightarrow> Ok () (ctx_reply (Added cid) w2))))))))"

text \<open>The handler's \<open>try\<close>/\<open>catch\<close>: an exception is logged and answered.\<close>

definition add_cmd :: "env \<Rightarrow> coin_map \<Rightarrow> ctx \<Rightarrow> world \<Rightarrow> world" where
  "add_cmd e coinMap c w =
     (case add_body e coinMap c w of
        Ok _ w' \<Rightarrow> w'
      | Thrown x w' \<Rightarrow> ctx_reply AddFailed (w'\<lparr>errors := errors w' @ [x]\<rparr>))"

section \<open>The \<open>alert\<close> command\<close>

text \<open>
  The direction of a new alert:
  \<open>targetPrice > currentPrice ? "above" : "below"\<close>, where \<open>currentPrice\<close> is
  \<open>data[coinId].usd\<close>.
\<close>

definition new_direction :: "number \<Rightarrow> jsval \<Rightarrow> string" where
  "new_direction target currentPrice =
     (if js_gt (Num target) currentPrice then ''above'' else ''below'')"

text \<open>The object pushed onto \<open>user.alerts\<close>: \<open>{coinId, targetPrice, direction}\<close>.\<close>

definition new_alert :: "string \<Rightarrow> number \<Rightarrow> jsval \<Rightarrow> alert" where
  "new_alert cid target currentPrice =
     \<lparr>coinId = cid, targetPrice = target,
      direction = new_direction target currentPrice\<rparr>"

text \<open>
  The handler (\<^verbatim>\<open>part_001\<close>, lines 235 to 278). \<open>parseFloat\<close> is the language's own
  function and rounds to a double, which the model of Numbers does not do, so it is a
  parameter: the theorems hold for whatever Number it returns for a string (or for
  \<open>undefined\<close>, when the message has no third word).
\<close>

definition alert_body ::
  "(string option \<Rightarrow> number) \<Rightarrow> env \<Rightarrow> coin_map \<Rightarrow> ctx \<Rightarrow> world \<Rightarrow> unit outcome" where
  "alert_body parseFloat e coinMap c w =
     (let parts = split_space (message_text c) in
      (let target = parseFloat (nth_opt parts 2) in
       (case nth_opt parts 1 of
          None \<Rightarrow> Ok () (ctx_reply AlertUsage w)
        | Some rawCoin \<Rightarrow>
            (if rawCoin = [] \<or> falsy (Num target) then Ok () (ctx_reply AlertUsage w)
             else
               (let cid = resolve coinMap rawCoin in
                (case fetch e w cid of
                   Inl x \<Rightarrow> Thrown x w
                 | Inr data \<Rightarrow>
                     (case data cid of
                        None \<Rightarrow> Ok () (ctx_reply CoinNotFound w)
                      | Some q \<Rightarrow>
                          (let a = new_alert cid target (usd q) in
                           (case getUser e c w of
                              Thrown x w1 \<Rightarrow> Thrown x w1
                            | Ok u w1 \<Rightarrow>
                                (case save e (u\<lparr>alerts := alerts u @ [a]\<rparr>) w1 of
                                   Thrown x w2 \<Rightarrow> Thrown x w2
                                 | Ok _ w2 \<Rightarrow>
                                     Ok () (ctx_reply
                                       (AlertSet cid (direction a) target) w2)))))))))))"

definition alert_cmd ::
  "(string option \<Rightarrow> number) \<Rightarrow> env \<Rightarrow> coin_map \<Rightarrow> ctx \<Rightarrow> world \<Rightarrow> world" where
  "alert_cmd parseFloat e coinMap c w =
     (case alert_body parseFloat e coinMap c w of
        Ok _ w' \<Rightarrow> w'
      | Thrown x w' \<Rightarrow> ctx_reply AlertError (w'\<lparr>errors := errors w' @ [x]\<rparr>))"

section \<open>The alert checker\<close>

text \<open>
  The callback of \<open>setInterval\<close> (\<^verbatim>\<open>part_001\<close>, lines 281 to 332; \<^verbatim>\<open>part_000\<close>,
  lines 270 to 329), from the inside out.
\<close>

text \<open>
  The test of one alert against the fetched price:
  \<open>fired = false; if (above && price >= target) fired = true;
  if (below && price <= target) fired = true\<close>.
\<close>

definition fired_cond :: "alert \<Rightarrow> jsval \<Rightarrow> bool" where
  "fired_cond a price =
     (let fired = False;
          fired = (if direction a = ''above'' \<and> js_ge price (Num (targetPrice a))
                   then True else fired);
          fired = (if direction a = ''below'' \<and> js_le price (Num (targetPrice a))
                   then True else fired)
      in fired)"

text \<open>
  What the loop body decides for one alert: it is kept when \<open>!price\<close>, notified (with
  that price) when the test holds, and kept otherwise.
\<close>

datatype verdict = Remaining | Fired jsval

definition classify :: "price_data \<Rightarrow> alert \<Rightarrow> verdict" where
  "classify data a =
     (let price = usd_at data (coinId a) in
      if falsy price then Remaining
      else if fired_cond a price then Fired price
      else Remaining)"

text \<open>The inner loop over \<open>user.alerts\<close>, carrying \<open>alertTriggered\<close> and \<open>remainingAlerts\<close>.\<close>

fun alerts_loop ::
  "env \<Rightarrow> price_data \<Rightarrow> user \<Rightarrow> alert list \<Rightarrow> bool \<times> alert list \<Rightarrow> world
     \<Rightarrow> (bool \<times> alert list) outcome" where
  "alerts_loop e data u [] acc w = Ok acc w"
| "alerts_loop e data u (a # rest) (alertTriggered, remainingAlerts) w =
     (case classify data a of
        Remaining \<Rightarrow> alerts_loop e data u rest (alertTriggered, remainingAlerts @ [a]) w
      | Fired price \<Rightarrow>
          (case sendMessage e \<lparr>recipient = telegramId u, about = a, at_price = price\<rparr> w of
             Thrown x w' \<Rightarrow> Thrown x w'
           | Ok _ w' \<Rightarrow> alerts_loop e data u rest (True, remainingAlerts) w'))"

text \<open>The body of the outer loop: one user's alerts, then the save if one fired.\<close>

definition process_user :: "env \<Rightarrow> price_data \<Rightarrow> user \<Rightarrow> world \<Rightarrow> unit outcome" where
  "process_user e data u w =
     (case alerts_loop e data u (alerts u) (False, []) w of
        Thrown x w' \<Rightarrow> Thrown x w'
      | Ok (alertTriggered, remainingAlerts) w' \<Rightarrow>
          if alertTriggered then save e (u\<lparr>alerts := remainingAlerts\<rparr>) w'
          else Ok () w')"

fun users_loop :: "env \<Rightarrow> price_data \<Rightarrow> user list \<Rightarrow> world \<Rightarrow> unit outcome" where
  "users_loop e data [] w = Ok () w"
| "users_loop e data (u # us) w =
     (case process_user e data u w of
        Thrown x w' \<Rightarrow> Thrown x w'
      | Ok _ w' \<Rightarrow> users_loop e data us w')"

text \<open>\<open>User.find({"alerts.0": {$exists: true}})\<close>: the users with at least one alert.\<close>

definition users_with_alerts :: "user list \<Rightarrow> user list" where
  "users_with_alerts docs = filter (\<lambda>u. alerts u \<noteq> []) docs"

text \<open>The \<open>Set\<close> of coin ids, in insertion order, and the \<open>ids\<close> parameter of the request.\<close>

definition set_add :: "string \<Rightarrow> string list \<Rightarrow> string list" where
  "set_add x s = (if x \<in> set s then s else s @ [x])"

definition request_ids :: "user list \<Rightarrow> string" where
  "request_ids users =
     join '','' (fold (\<lambda>u s. fold (\<lambda>a s. set_add (coinId a) s) (alerts u) s) users [])"

text \<open>The callback of \<open>setInterval\<close>: the body of its \<open>try\<close>, and the whole with its \<open>catch\<close>.\<close>

definition tick_body :: "env \<Rightarrow> world \<Rightarrow> unit outcome" where
  "tick_body e w =
     (if find_fails e w then Thrown StoreError w
      else
        let users = users_with_alerts (db w) in
        if length users = 0 then Ok () w
        else
          case fetch e w (request_ids users) of
            Inl x \<Rightarrow> Thrown x w
          | Inr data \<Rightarrow> users_loop e data users w)"

definition tick :: "env \<Rightarrow> world \<Rightarrow> world" where
  "tick e w =
     (case tick_body e w of
        Ok _ w' \<Rightarrow> w'
      | Thrown x w' \<Rightarrow> w'\<lparr>errors := errors w' @ [x]\<rparr>)"

section \<open>Notions used to state the properties\<close>

fun world_of :: "'a outcome \<Rightarrow> world" where
  "world_of (Ok v w) = w"
| "world_of (Thrown x w) = w"

text \<open>The record the checker saves for a user one of whose alerts fired.\<close>

definition kept :: "price_data \<Rightarrow> user \<Rightarrow> user" where
  "kept data u = u\<lparr>alerts := filter (\<lambda>a. classify data a = Remaining) (alerts u)\<rparr>"

text \<open>The message the checker sends for an alert of a user.\<close>

definition notice :: "price_data \<Rightarrow> user \<Rightarrow> alert \<Rightarrow> notification" where
  "notice data u a = \<lparr>recipient = telegramId u, about = a, at_price = usd_at data (coinId a)\<rparr>"

text \<open>At least one of the user's alerts fires.\<close>

definition fires_for :: "price_data \<Rightarrow> user \<Rightarrow> bool" where
  "fires_for data u = (\<exists>a\<in>set (alerts u). classify data a \<noteq> Remaining)"

text \<open>What one user's turn in the outer loop can do to the world.\<close>

definition user_step :: "price_data \<Rightarrow> user \<Rightarrow> world \<Rightarrow> world \<Rightarrow> bool" where
  "user_step data u w w' =
     (replies w' = replies w \<and> errors w' = errors w \<and>
      (\<exists>as'. sent w' = sent w @ map (notice data u) as' \<and>
             set as' \<subseteq> {a \<in> set (alerts u). classify data a \<noteq> Remaining}) \<and>
      (db w' = db w \<and> writes w' = writes w \<or>
       (\<exists>a\<in>set (alerts u). classify data a \<noteq> Remaining) \<and>
       db w' = store (kept data u) (db w) \<and> writes w' = writes w @ [kept data u]))"

text \<open>
  What the turns of the users \<open>us\<close> can do together: a document of another user
  stays; a document of one of them stays or is replaced by its kept alerts; what is
  written and sent is written and sent for alerts of theirs that fire.
\<close>

definition users_step:: "price_data \<Rightarrow> user list \<Rightarrow> world \<Rightarrow> world \<Rightarrow> bool" where
  "users_step data us w w' =
     (replies w' = replies w \<and>
      (\<forall>x\<in>set (db w). telegramId x \<notin> telegramId ` set us \<longrightarrow> x \<in> set (db w')) \<and>
      (\<forall>v\<in>set us. v \<in> set (db w) \<longrightarrow>
           v \<in> set (db w') \<or> fires_for data v \<and> kept data v \<in> set (db w')) \<and>
      (\<exists>ws. writes w' = writes w @ ws \<and>
            set ws \<subseteq> kept data ` {v \<in> set us. fires_for data v}) \<and>
      (\<exists>ns. sent w' = sent w @ ns \<and>
            (\<forall>n\<in>set ns. \<exists>v\<in>set us. \<exists>a\<in>set (alerts v).
                classify data a \<noteq> Remaining \<and> n = notice data v a)))"

section \<open>Concrete scenarios\<close>

text \<open>External services that never fail and answer every price request with \<open>data\<close>.\<close>

definition env_ok :: "price_data \<Rightarrow> env" where
  "env_ok data =
     \<lparr>find_fails = (\<lambda>w. False), findOne_fails = (\<lambda>w i. False),
      save_fails = (\<lambda>w u. False), send_fails = (\<lambda>w n. False),
      fetch = (\<lambda>w ids. Inr data)\<rparr>"

text \<open>The same, but the chat \<open>chat\<close> rejects every message (the user blocked the bot).\<close>

definition env_blocked :: "string \<Rightarrow> price_data \<Rightarrow> env" where
  "env_blocked chat data =
     \<lparr>find_fails = (\<lambda>w. False), findOne_fails = (\<lambda>w i. False),
      save_fails = (\<lambda>w u. False), send_fails = (\<lambda>w n. recipient n = chat),
      fetch = (\<lambda>w ids. Inr data)\<rparr>"

text \<open>The price source answers every request with a rate-limit error.\<close>

definition env_rate_limited :: env where
  "env_rate_limited =
     \<lparr>find_fails = (\<lambda>w. False), findOne_fails = (\<lambda>w i. False),
      save_fails = (\<lambda>w u. False), send_fails = (\<lambda>w n. False),
      fetch = (\<lambda>w ids. Inl RateLimited)\<rparr>"

text \<open>
  A stand-in for \<open>parseFloat\<close> in the scenarios. It agrees with \<open>parseFloat\<close> on
  \<open>undefined\<close> and on an optional minus sign followed by one to fifteen decimal
  digits, the only arguments it is given below.
\<close>

definition digit_val :: "char \<Rightarrow> rat option" where
  "digit_val c =
     (if (48::nat) \<le> of_char c \<and> of_char c \<le> (57::nat)
      then Some (of_nat (of_char c - 48)) else None)"

fun digits_val :: "rat \<Rightarrow> string \<Rightarrow> rat option" where
  "digits_val acc [] = Some acc"
| "digits_val acc (c # cs) =
     (case digit_val c of
        None \<Rightarrow> None
      | Some d \<Rightarrow> digits_val (10 * acc + d) cs)"

definition parse_integer :: "string option \<Rightarrow> number" where
  "parse_integer v =
     (case v of
        None \<Rightarrow> NaN
      | Some s \<Rightarrow>
          (if s = [] \<or> s = ''-'' then NaN
           else if hd s = CHR ''-''
           then (case digits_val 0 (tl s) of
                   None \<Rightarrow> NaN
                 | Some n \<Rightarrow> Fin (- n))
           else (case digits_val 0 s of
                   None \<Rightarrow> NaN
                 | Some n \<Rightarrow> Fin n)))"

definition world0 :: "user list \<Rightarrow> world" where
  "world0 docs = \<lparr>db = docs, writes = [], sent = [], replies = [], errors = []\<rparr>"

definition below_50000 :: alert where
  "below_50000 = \<lparr>coinId = ''bitcoin'', targetPrice = Fin 50000, direction = ''below''\<rparr>"

definition below_40000 :: alert where
  "below_40000 = \<lparr>coinId = ''bitcoin'', targetPrice = Fin 40000, direction = ''below''\<rparr>"

definition above_50000 :: alert where
  "above_50000 = \<lparr>coinId = ''bitcoin'', targetPrice = Fin 50000, direction = ''above''\<rparr>"

definition doge_above_1 :: alert where
  "doge_above_1 = \<lparr>coinId = ''dogecoin'', targetPrice = Fin 1, direction = ''above''\<rparr>"

definition alice :: "alert list \<Rightarrow> user" where
  "alice as = \<lparr>telegramId = ''1'', firstName = ''Alice'', favorites = [''bitcoin''], alerts = as\<rparr>"

definition bob :: "alert list \<Rightarrow> user" where
  "bob as = \<lparr>telegramId = ''2'', firstName = ''Bob'', favorites = [], alerts = as\<rparr>"

definition bitcoin_at :: "rat \<Rightarrow> price_data" where
  "bitcoin_at p = [''bitcoin'' \<mapsto> \<lparr>usd = Num (Fin p)\<rparr>]"

definition coin_map0 :: coin_map where
  "coin_map0 = initCoinList [\<lparr>coin_symbol = ''btc'', coin_id = ''bitcoin''\<rparr>]"

definition message_from :: "string \<Rightarrow> string \<Rightarrow> ctx" where
  "message_from i t = \<lparr>from_id = i, first_name = ''Alice'', message_text = t\<rparr>"

section \<open>Comparison, classification and the store\<close>

lemma num_le_Fin: "num_le (Fin a) (Fin b) \<longleftrightarrow> a \<le> b"
  by (auto simp: num_le_def)

lemma num_le_refl: "a \<noteq> NaN \<Longrightarrow> num_le a a"
  by (cases a) (simp_all add: num_le_def)

lemma fired_cond_iff:
  "fired_cond a p \<longleftrightarrow>
     (direction a = ''above'' \<and> js_ge p (Num (targetPrice a))) \<or>
     (direction a = ''below'' \<and> js_le p (Num (targetPrice a)))"
  by (simp add: fired_cond_def Let_def)

lemma classify_Fired_iff:
  "classify data a = Fired p \<longleftrightarrow>
     p = usd_at data (coinId a) \<and> \<not> falsy p \<and> fired_cond a p"
  by (auto simp: classify_def Let_def)

lemma classify_Remaining_iff:
  "classify data a = Remaining \<longleftrightarrow>
     falsy (usd_at data (coinId a)) \<or> \<not> fired_cond a (usd_at data (coinId a))"
  by (auto simp: classify_def Let_def)

lemma store_other: "v \<in> set docs \<Longrightarrow> telegramId v \<noteq> telegramId u \<Longrightarrow> v \<in> set (store u docs)"
  by (auto simp: store_def)

lemma store_mem: "u \<in> set (store u docs)"
  by (auto simp: store_def)

lemma set_store: "set (store u docs) \<subseteq> insert u (set docs)"
  by (auto simp: store_def)

lemma kept_id [simp]: "telegramId (kept data u) = telegramId u"
  by (simp add: kept_def)

lemma alerts_loop_all_remaining:
  "\<forall>a\<in>set as. classify data a = Remaining \<Longrightarrow>
   alerts_loop e data u as (t, r) w = Ok (t, r @ as) w"
  by (induction as arbitrary: r) auto

lemma alerts_loop_Ok:
  "alerts_loop e data u as (t, r) w = Ok (t', r') w' \<Longrightarrow>
   r' = r @ filter (\<lambda>a. classify data a = Remaining) as \<and>
   (t' \<longleftrightarrow> t \<or> (\<exists>a\<in>set as. classify data a \<noteq> Remaining)) \<and>
   db w' = db w \<and> writes w' = writes w \<and> replies w' = replies w \<and> errors w' = errors w \<and>
   sent w' = sent w @ map (notice data u) (filter (\<lambda>a. classify data a \<noteq> Remaining) as)"
proof (induction as arbitrary: t r w)
  case Nil
  then show ?case by simp
next
  case (Cons a as)
  show ?case
  proof (cases "classify data a")
    case Remaining
    with Cons.prems have "alerts_loop e data u as (t, r @ [a]) w = Ok (t', r') w'" by simp
    from Cons.IH[OF this] Remaining show ?thesis by auto
  next
    case (Fired p)
    then have p: "p = usd_at data (coinId a)"
      by (simp add: classify_Fired_iff)
    let ?n = "\<lparr>recipient = telegramId u, about = a, at_price = p\<rparr>"
    from Cons.prems Fired have "\<not> send_fails e w ?n"
      by (auto simp: sendMessage_def split: if_splits)
    with Cons.prems Fired have
      "alerts_loop e data u as (True, r) (w\<lparr>sent := sent w @ [?n]\<rparr>) = Ok (t', r') w'"
      by (simp add: sendMessage_def)
    from Cons.IH[OF this] Fired p show ?thesis by (auto simp: notice_def)
  qed
qed

lemma alerts_loop_Thrown:
  "alerts_loop e data u as (t, r) w = Thrown x w' \<Longrightarrow>
   x = NotifyError \<and>
   db w' = db w \<and> writes w' = writes w \<and> replies w' = replies w \<and> errors w' = errors w \<and>
   (\<exists>as'. sent w' = sent w @ map (notice data u) as' \<and>
          set as' \<subseteq> {a \<in> set as. classify data a \<noteq> Remaining})"
proof (induction as arbitrary: t r w)
  case Nil
  then show ?case by simp
next
  case (Cons a as)
  show ?case
  proof (cases "classify data a")
    case Remaining
    with Cons.prems have "alerts_loop e data u as (t, r @ [a]) w = Thrown x w'" by simp
    from Cons.IH[OF this] obtain as' where
      h: "x = NotifyError" "db w' = db w" "writes w' = writes w" "replies w' = replies w"
         "errors w' = errors w" "sent w' = sent w @ map (notice data u) as'"
         "set as' \<subseteq> {a \<in> set as. classify data a \<noteq> Remaining}"
      by blast
    from h(7) have "set as' \<subseteq> {b \<in> set (a # as). classify data b \<noteq> Remaining}"
      by auto
    with h(1-6) show ?thesis by blast
  next
    case (Fired p)
    then have p: "p = usd_at data (coinId a)"
      by (simp add: classify_Fired_iff)
    let ?n = "\<lparr>recipient = telegramId u, about = a, at_price = p\<rparr>"
    have n: "?n = notice data u a" using p by (simp add: notice_def)
    show ?thesis
    proof (cases "send_fails e w ?n")
      case True
      with Cons.prems Fired have xw: "x = NotifyError" "w' = w" by (simp_all add: sendMessage_def)
      have "sent w = sent w @ map (notice data u) []" by simp
      moreover have "set [] \<subseteq> {b \<in> set (a # as). classify data b \<noteq> Remaining}" by simp
      ultimately have "\<exists>as'. sent w = sent w @ map (notice data u) as' \<and>
          set as' \<subseteq> {b \<in> set (a # as). classify data b \<noteq> Remaining}" by blast
      with xw show ?thesis by simp
    next
      case False
      with Cons.prems Fired have
        "alerts_loop e data u as (True, r) (w\<lparr>sent := sent w @ [?n]\<rparr>) = Thrown x w'"
        by (simp add: sendMessage_def)
      from Cons.IH[OF this] obtain as' where
        h: "x = NotifyError" "db w' = db w" "writes w' = writes w" "replies w' = replies w"
           "errors w' = errors w"
           "sent w' = (sent w @ [?n]) @ map (notice data u) as'"
           "set as' \<subseteq> {a \<in> set as. classify data a \<noteq> Remaining}"
        by (elim conjE exE) simp
      from h(6) n have "sent w' = sent w @ map (notice data u) (a # as')"
        by simp
      moreover from h(7) Fired have "set (a # as') \<subseteq> {b \<in> set (a # as). classify data b \<noteq> Remaining}"
        by auto
      ultimately have "\<exists>as'. sent w' = sent w @ map (notice data u) as' \<and>
          set as' \<subseteq> {b \<in> set (a # as). classify data b \<noteq> Remaining}" by blast
      with h(1-5) show ?thesis by simp
    qed
  qed
qed

section \<open>The effect of a tick\<close>

lemma process_user_all_remaining:
  "\<forall>a\<in>set (alerts u). classify data a = Remaining \<Longrightarrow> process_user e data u w = Ok () w"
  by (simp add: process_user_def alerts_loop_all_remaining)

lemma process_user_step:
  "user_step data u w (world_of (process_user e data u w))"
proof (cases "alerts_loop e data u (alerts u) (False, []) w")
  case (Thrown x w')
  then have "world_of (process_user e data u w) = w'"
    by (simp add: process_user_def)
  with alerts_loop_Thrown[OF Thrown] show ?thesis
    by (simp add: user_step_def)
next
  case (Ok tr w')
  obtain t' r' where tr: "tr = (t', r')" by (cases tr)
  note h = alerts_loop_Ok[OF Ok[unfolded tr]]
  from h have r': "u\<lparr>alerts := r'\<rparr> = kept data u" by (simp add: kept_def)
  have s: "\<exists>as'. sent w' = sent w @ map (notice data u) as' \<and>
             set as' \<subseteq> {a \<in> set (alerts u). classify data a \<noteq> Remaining}"
  proof -
    have "set (filter (\<lambda>a. classify data a \<noteq> Remaining) (alerts u))
          \<subseteq> {a \<in> set (alerts u). classify data a \<noteq> Remaining}" by auto
    with h show ?thesis by blast
  qed
  show ?thesis
  proof (cases t')
    case False
    with Ok tr have "world_of (process_user e data u w) = w'"
      by (simp add: process_user_def)
    with h s show ?thesis by (simp add: user_step_def)
  next
    case True
    with h have f: "\<exists>a\<in>set (alerts u). classify data a \<noteq> Remaining" by simp
    show ?thesis
    proof (cases "save_fails e w' (kept data u)")
      case sf: True
      with Ok tr True r' have "world_of (process_user e data u w) = w'"
        by (simp add: process_user_def save_def)
      with h s show ?thesis by (simp add: user_step_def)
    next
      case sf: False
      with Ok tr True r' have
        "world_of (process_user e data u w) =
           w'\<lparr>db := store (kept data u) (db w'), writes := writes w' @ [kept data u]\<rparr>"
        by (simp add: process_user_def save_def)
      with h s f show ?thesis by (simp add: user_step_def)
    qed
  qed
qed

lemma users_step_refl: "users_step data us w w"
proof -
  have "writes w = writes w @ [] \<and> set [] \<subseteq> kept data ` {v \<in> set us. fires_for data v}"
    by simp
  then have a: "\<exists>ws. writes w = writes w @ ws \<and>
            set ws \<subseteq> kept data ` {v \<in> set us. fires_for data v}" by blast
  have "sent w = sent w @ [] \<and> (\<forall>n\<in>set []. \<exists>v\<in>set us. \<exists>a\<in>set (alerts v).
                classify data a \<noteq> Remaining \<and> n = notice data v a)" by simp
  then have b: "\<exists>ns. sent w = sent w @ ns \<and> (\<forall>n\<in>set ns. \<exists>v\<in>set us. \<exists>a\<in>set (alerts v).
                classify data a \<noteq> Remaining \<and> n = notice data v a)" by blast
  from a b show ?thesis unfolding users_step_def by simp
qed

lemma users_step_Cons:
  assumes d: "telegramId u \<notin> telegramId ` set us"
    and s1: "user_step data u w w1"
    and s2: "users_step data us w1 w2"
  shows "users_step data (u # us) w w2"
proof -
  from s1 obtain as' where
    a1: "replies w1 = replies w" "errors w1 = errors w"
        "sent w1 = sent w @ map (notice data u) as'"
        "set as' \<subseteq> {a \<in> set (alerts u). classify data a \<noteq> Remaining}"
    and dbc: "db w1 = db w \<and> writes w1 = writes w \<or>
       fires_for data u \<and>
       db w1 = store (kept data u) (db w) \<and> writes w1 = writes w @ [kept data u]"
    unfolding user_step_def fires_for_def by blast
  from s2 obtain ws ns where
    a2: "replies w2 = replies w1" "replies w2 = replies w1"
        "\<forall>x\<in>set (db w1). telegramId x \<notin> telegramId ` set us \<longrightarrow> x \<in> set (db w2)"
        "\<forall>v\<in>set us. v \<in> set (db w1) \<longrightarrow>
           v \<in> set (db w2) \<or> fires_for data v \<and> kept data v \<in> set (db w2)"
        "writes w2 = writes w1 @ ws" "set ws \<subseteq> kept data ` {v \<in> set us. fires_for data v}"
        "sent w2 = sent w1 @ ns"
        "\<forall>n\<in>set ns. \<exists>v\<in>set us. \<exists>a\<in>set (alerts v).
                classify data a \<noteq> Remaining \<and> n = notice data v a"
    unfolding users_step_def by blast
  have keep: "x \<in> set (db w1)" if "x \<in> set (db w)" "telegramId x \<noteq> telegramId u" for x
    using dbc that by (auto simp: store_other)
  have c1: "\<forall>x\<in>set (db w). telegramId x \<notin> telegramId ` set (u # us) \<longrightarrow> x \<in> set (db w2)"
    using keep a2(3) by auto
  have c2u: "u \<in> set (db w) \<longrightarrow> u \<in> set (db w2) \<or> fires_for data u \<and> kept data u \<in> set (db w2)"
  proof
    assume "u \<in> set (db w)"
    from dbc show "u \<in> set (db w2) \<or> fires_for data u \<and> kept data u \<in> set (db w2)"
    proof
      assume "db w1 = db w \<and> writes w1 = writes w"
      with \<open>u \<in> set (db w)\<close> have "u \<in> set (db w1)" by simp
      with a2(3) d show ?thesis by blast
    next
      assume h: "fires_for data u \<and>
        db w1 = store (kept data u) (db w) \<and> writes w1 = writes w @ [kept data u]"
      then have "kept data u \<in> set (db w1)" by (simp add: store_mem)
      moreover have "telegramId (kept data u) \<notin> telegramId ` set us" using d by simp
      ultimately have "kept data u \<in> set (db w2)" using a2(3) by blast
      with h show ?thesis by blast
    qed
  qed
  have c2r: "\<forall>v\<in>set us. v \<in> set (db w) \<longrightarrow>
           v \<in> set (db w2) \<or> fires_for data v \<and> kept data v \<in> set (db w2)"
  proof (intro ballI impI)
    fix v assume v: "v \<in> set us" "v \<in> set (db w)"
    with d have "telegramId v \<noteq> telegramId u" by (metis imageI)
    with v have "v \<in> set (db w1)" by (simp add: keep)
    with a2(4) v show "v \<in> set (db w2) \<or> fires_for data v \<and> kept data v \<in> set (db w2)"
      by blast
  qed
  have c3: "\<exists>ws. writes w2 = writes w @ ws \<and>
            set ws \<subseteq> kept data ` {v \<in> set (u # us). fires_for data v}"
  proof -
    from dbc show ?thesis
    proof
      assume "db w1 = db w \<and> writes w1 = writes w"
      with a2(5) have "writes w2 = writes w @ ws" by simp
      moreover from a2(6) have "set ws \<subseteq> kept data ` {v \<in> set (u # us). fires_for data v}"
        by auto
      ultimately show ?thesis by blast
    next
      assume h: "fires_for data u \<and>
        db w1 = store (kept data u) (db w) \<and> writes w1 = writes w @ [kept data u]"
      with a2(5) have "writes w2 = writes w @ (kept data u # ws)" by simp
      moreover from a2(6) h have
        "set (kept data u # ws) \<subseteq> kept data ` {v \<in> set (u # us). fires_for data v}"
        by auto
      ultimately show ?thesis by blast
    qed
  qed
  have c4: "\<exists>ns. sent w2 = sent w @ ns \<and>
            (\<forall>n\<in>set ns. \<exists>v\<in>set (u # us). \<exists>a\<in>set (alerts v).
                classify data a \<noteq> Remaining \<and> n = notice data v a)"
  proof -
    from a1(3) a2(7) have "sent w2 = sent w @ (map (notice data u) as' @ ns)" by simp
    moreover have "\<forall>n\<in>set (map (notice data u) as' @ ns). \<exists>v\<in>set (u # us). \<exists>a\<in>set (alerts v).
                classify data a \<noteq> Remaining \<and> n = notice data v a"
    proof
      fix n assume "n \<in> set (map (notice data u) as' @ ns)"
      then consider a where "a \<in> set as'" "n = notice data u a" | "n \<in> set ns" by auto
      then show "\<exists>v\<in>set (u # us). \<exists>a\<in>set (alerts v).
                classify data a \<noteq> Remaining \<and> n = notice data v a"
      proof cases
        case 1
        with a1(4) have "a \<in> set (alerts u)" "classify data a \<noteq> Remaining" by auto
        with 1 show ?thesis by auto
      next
        case 2
        with a2(8) show ?thesis by auto
      qed
    qed
    ultimately show ?thesis by blast
  qed
  from a1(1,2) a2(1,2) c1 c2u c2r c3 c4 show ?thesis
    unfolding users_step_def by simp
qed

lemma users_loop_step:
  "distinct (map telegramId us) \<Longrightarrow>
   users_step data us w (world_of (users_loop e data us w))"
proof (induction us arbitrary: w)
  case Nil
  show ?case by (simp add: users_step_refl)
next
  case (Cons u us)
  from Cons.prems have d: "telegramId u \<notin> telegramId ` set us" and ds: "distinct (map telegramId us)"
    by auto
  have s1: "user_step data u w (world_of (process_user e data u w))"
    by (rule process_user_step)
  show ?case
  proof (cases "process_user e data u w")
    case (Thrown x w1)
    then have "world_of (users_loop e data (u # us) w) = w1" by simp
    moreover from s1 Thrown have "user_step data u w w1" by simp
    then have "users_step data (u # us) w w1"
      by (rule users_step_Cons[OF d _ users_step_refl])
    ultimately show ?thesis by simp
  next
    case (Ok v w1)
    then have "world_of (users_loop e data (u # us) w) = world_of (users_loop e data us w1)"
      by simp
    moreover from s1 Ok have "user_step data u w w1" by simp
    then have "users_step data (u # us) w (world_of (users_loop e data us w1))"
      by (rule users_step_Cons[OF d _ Cons.IH[OF ds]])
    ultimately show ?thesis by simp
  qed
qed


lemma users_step_errors:
  "users_step data us w w' \<Longrightarrow> users_step data us w (w'\<lparr>errors := x\<rparr>)"
  by (simp add: users_step_def)

lemma users_loop_append:
  "users_loop e data (us1 @ us2) w =
     (case users_loop e data us1 w of
        Thrown x w' \<Rightarrow> Thrown x w'
      | Ok v w' \<Rightarrow> users_loop e data us2 w')"
  by (induction us1 arbitrary: w) (auto split: outcome.splits)

lemma tick_step:
  assumes d: "distinct (map telegramId (db w))"
    and f: "fetch e w (request_ids (users_with_alerts (db w))) = Inr data"
  shows "users_step data (users_with_alerts (db w)) w (tick e w)"
proof -
  let ?us = "users_with_alerts (db w)"
  from d have dus: "distinct (map telegramId ?us)"
    by (simp add: users_with_alerts_def distinct_map_filter)
  show ?thesis
  proof (cases "find_fails e w")
    case True
    then have "tick e w = w\<lparr>errors := errors w @ [StoreError]\<rparr>"
      by (simp add: tick_def tick_body_def)
    then show ?thesis by (simp add: users_step_errors users_step_refl)
  next
    case ff: False
    show ?thesis
    proof (cases "?us = []")
      case True
      with ff have "tick e w = w" by (simp add: tick_def tick_body_def)
      then show ?thesis by (simp add: users_step_refl)
    next
      case False
      with ff f have tb: "tick_body e w = users_loop e data ?us w"
        by (simp add: tick_body_def)
      have st: "users_step data ?us w (world_of (users_loop e data ?us w))"
        by (rule users_loop_step[OF dus])
      show ?thesis
      proof (cases "users_loop e data ?us w")
        case (Ok v w')
        with tb have "tick e w = w'" by (simp add: tick_def)
        with st Ok show ?thesis by simp
      next
        case (Thrown x w')
        with tb have "tick e w = w'\<lparr>errors := errors w' @ [x]\<rparr>" by (simp add: tick_def)
        with st Thrown show ?thesis by (simp add: users_step_errors)
      qed
    qed
  qed
qed

lemma tick_keeps:
  assumes d: "distinct (map telegramId (db w))"
    and f: "fetch e w (request_ids (users_with_alerts (db w))) = Inr data"
    and u: "u \<in> set (db w)"
  shows "u \<in> set (db (tick e w)) \<or> fires_for data u \<and> kept data u \<in> set (db (tick e w))"
proof (cases "alerts u = []")
  case False
  with u have "u \<in> set (users_with_alerts (db w))" by (simp add: users_with_alerts_def)
  with tick_step[OF d f] u show ?thesis unfolding users_step_def by blast
next
  case True
  have "telegramId u \<notin> telegramId ` set (users_with_alerts (db w))"
  proof
    assume "telegramId u \<in> telegramId ` set (users_with_alerts (db w))"
    then obtain v where v: "v \<in> set (db w)" "alerts v \<noteq> []" "telegramId v = telegramId u"
      by (auto simp: users_with_alerts_def)
    from d have "inj_on telegramId (set (db w))" by (simp add: distinct_map)
    with v u have "v = u" by (auto dest: inj_onD)
    with v True show False by simp
  qed
  with tick_step[OF d f] u show ?thesis unfolding users_step_def by blast
qed

lemma tick_writes:
  assumes d: "distinct (map telegramId (db w))"
    and f: "fetch e w (request_ids (users_with_alerts (db w))) = Inr data"
  shows "\<exists>ws. writes (tick e w) = writes w @ ws \<and>
              set ws \<subseteq> kept data ` {v \<in> set (db w). fires_for data v}"
proof -
  from tick_step[OF d f] obtain ws where
    ws: "writes (tick e w) = writes w @ ws"
        "set ws \<subseteq> kept data ` {v \<in> set (users_with_alerts (db w)). fires_for data v}"
    unfolding users_step_def by blast
  from ws(2) have "set ws \<subseteq> kept data ` {v \<in> set (db w). fires_for data v}"
    by (auto simp: users_with_alerts_def)
  with ws(1) show ?thesis by blast
qed

lemma tick_sent:
  assumes d: "distinct (map telegramId (db w))"
    and f: "fetch e w (request_ids (users_with_alerts (db w))) = Inr data"
  shows "\<exists>ns. sent (tick e w) = sent w @ ns \<and>
              (\<forall>n\<in>set ns. \<exists>v\<in>set (db w). \<exists>a\<in>set (alerts v).
                  classify data a \<noteq> Remaining \<and> n = notice data v a)"
proof -
  from tick_step[OF d f] obtain ns where
    ns: "sent (tick e w) = sent w @ ns"
        "\<forall>n\<in>set ns. \<exists>v\<in>set (users_with_alerts (db w)). \<exists>a\<in>set (alerts v).
                  classify data a \<noteq> Remaining \<and> n = notice data v a"
    unfolding users_step_def by blast
  from ns(2) have "\<forall>n\<in>set ns. \<exists>v\<in>set (db w). \<exists>a\<in>set (alerts v).
                  classify data a \<noteq> Remaining \<and> n = notice data v a"
    by (simp add: users_with_alerts_def) blast
  with ns(1) show ?thesis by blast
qed

section \<open>Alerts without a usable price\<close>

lemma remaining_alert_survives:
  assumes r: "classify data a = Remaining"
    and d: "distinct (map telegramId (db w))"
    and f: "fetch e w (request_ids (users_with_alerts (db w))) = Inr data"
    and u: "u \<in> set (db w)" and a: "a \<in> set (alerts u)"
  shows "(\<exists>u'\<in>set (db (tick e w)). telegramId u' = telegramId u \<and> a \<in> set (alerts u')) \<and>
         (\<exists>ns. sent (tick e w) = sent w @ ns \<and> (\<forall>n\<in>set ns. about n \<noteq> a))"
proof
  from tick_keeps[OF d f u]
  show "\<exists>u'\<in>set (db (tick e w)). telegramId u' = telegramId u \<and> a \<in> set (alerts u')"
  proof
    assume "u \<in> set (db (tick e w))"
    with a show ?thesis by blast
  next
    assume "fires_for data u \<and> kept data u \<in> set (db (tick e w))"
    moreover from a r have "a \<in> set (alerts (kept data u))" by (simp add: kept_def)
    ultimately show ?thesis by (metis kept_id)
  qed
next
  from tick_sent[OF d f] obtain ns where
    ns: "sent (tick e w) = sent w @ ns"
        "\<forall>n\<in>set ns. \<exists>v\<in>set (db w). \<exists>b\<in>set (alerts v).
                  classify data b \<noteq> Remaining \<and> n = notice data v b"
    by blast
  have "\<forall>n\<in>set ns. about n \<noteq> a"
  proof
    fix n assume "n \<in> set ns"
    with ns(2) obtain v b where "classify data b \<noteq> Remaining" "n = notice data v b" by blast
    with r show "about n \<noteq> a" by (auto simp: notice_def)
  qed
  with ns(1) show "\<exists>ns. sent (tick e w) = sent w @ ns \<and> (\<forall>n\<in>set ns. about n \<noteq> a)" by blast
qed

text \<open>
  Claim C4. An alert on a coin for which the price response has no entry is classified
  as remaining, whatever its direction and target. In a tick that gets this response the
  alert is neither dropped nor fired: the stored record of its user still holds it
  afterwards, and no message of the tick is about it.
\<close>

theorem missing_price_keeps_alert:
  assumes "data (coinId a) = None"
  shows "classify data a = Remaining \<and>
         (distinct (map telegramId (db w)) \<and>
          fetch e w (request_ids (users_with_alerts (db w))) = Inr data \<and>
          u \<in> set (db w) \<and> a \<in> set (alerts u) \<longrightarrow>
            (\<exists>u'\<in>set (db (tick e w)). telegramId u' = telegramId u \<and> a \<in> set (alerts u')) \<and>
            (\<exists>ns. sent (tick e w) = sent w @ ns \<and> (\<forall>n\<in>set ns. about n \<noteq> a)))"
proof -
  from assms have r: "classify data a = Remaining"
    by (simp add: classify_def usd_at_def)
  with remaining_alert_survives[OF r] show ?thesis by blast
qed

theorem missing_price_keeps_alert_witness:
  "bitcoin_at 49000 (coinId doge_above_1) = None \<and>
   distinct (map telegramId (db (world0 [alice [below_50000, doge_above_1]]))) \<and>
   fetch (env_ok (bitcoin_at 49000)) (world0 [alice [below_50000, doge_above_1]])
     (request_ids (users_with_alerts (db (world0 [alice [below_50000, doge_above_1]]))))
     = Inr (bitcoin_at 49000) \<and>
   alice [below_50000, doge_above_1] \<in> set (db (world0 [alice [below_50000, doge_above_1]])) \<and>
   doge_above_1 \<in> set (alerts (alice [below_50000, doge_above_1])) \<and>
   classify (bitcoin_at 49000) doge_above_1 = Remaining \<and>
   (\<exists>u'\<in>set (db (tick (env_ok (bitcoin_at 49000)) (world0 [alice [below_50000, doge_above_1]]))).
       telegramId u' = telegramId (alice [below_50000, doge_above_1]) \<and>
       doge_above_1 \<in> set (alerts u')) \<and>
   (\<exists>ns. sent (tick (env_ok (bitcoin_at 49000)) (world0 [alice [below_50000, doge_above_1]]))
            = sent (world0 [alice [below_50000, doge_above_1]]) @ ns \<and>
         (\<forall>n\<in>set ns. about n \<noteq> doge_above_1))"
proof -
  let ?w = "world0 [alice [below_50000, doge_above_1]]"
  have h1: "bitcoin_at 49000 (coinId doge_above_1) = None"
    by (simp add: bitcoin_at_def doge_above_1_def)
  have h2: "distinct (map telegramId (db ?w))" by (simp add: world0_def)
  have h3: "fetch (env_ok (bitcoin_at 49000)) ?w (request_ids (users_with_alerts (db ?w)))
              = Inr (bitcoin_at 49000)"
    by (simp add: env_ok_def)
  have h4: "alice [below_50000, doge_above_1] \<in> set (db ?w)" by (simp add: world0_def)
  have h5: "doge_above_1 \<in> set (alerts (alice [below_50000, doge_above_1]))"
    by (simp add: alice_def)
  from missing_price_keeps_alert[where data = "bitcoin_at 49000" and a = doge_above_1
      and w = ?w and e = "env_ok (bitcoin_at 49000)"
      and u = "alice [below_50000, doge_above_1]", OF h1] h1 h2 h3 h4 h5
  show ?thesis by blast
qed

text \<open>
  Claim C10. The presence test of the checker is \<open>!price\<close>, which a price of exactly
  zero fails as a missing price does. An alert on a coin whose fetched price is 0 is
  classified as remaining whatever its direction and target, also when the firing test
  holds for that price (a \<open>below\<close> alert with a positive target, in the scenario):
  after the tick its user's stored record still holds it and no message is about it.
\<close>

theorem zero_price_treated_as_absent:
  assumes "data (coinId a) = Some q" and "usd q = Num (Fin 0)"
  shows "classify data a = Remaining \<and>
         (distinct (map telegramId (db w)) \<and>
          fetch e w (request_ids (users_with_alerts (db w))) = Inr data \<and>
          u \<in> set (db w) \<and> a \<in> set (alerts u) \<longrightarrow>
            (\<exists>u'\<in>set (db (tick e w)). telegramId u' = telegramId u \<and> a \<in> set (alerts u')) \<and>
            (\<exists>ns. sent (tick e w) = sent w @ ns \<and> (\<forall>n\<in>set ns. about n \<noteq> a)))"
proof -
  from assms have r: "classify data a = Remaining"
    by (simp add: classify_def usd_at_def)
  with remaining_alert_survives[OF r] show ?thesis by blast
qed

theorem zero_price_treated_as_absent_witness:
  "bitcoin_at 0 (coinId below_50000) = Some \<lparr>usd = Num (Fin 0)\<rparr> \<and>
   usd \<lparr>usd = Num (Fin 0)\<rparr> = Num (Fin 0) \<and>
   fired_cond below_50000 (Num (Fin 0)) \<and>
   distinct (map telegramId (db (world0 [alice [below_50000]]))) \<and>
   fetch (env_ok (bitcoin_at 0)) (world0 [alice [below_50000]])
     (request_ids (users_with_alerts (db (world0 [alice [below_50000]])))) = Inr (bitcoin_at 0) \<and>
   alice [below_50000] \<in> set (db (world0 [alice [below_50000]])) \<and>
   below_50000 \<in> set (alerts (alice [below_50000])) \<and>
   classify (bitcoin_at 0) below_50000 = Remaining \<and>
   (\<exists>u'\<in>set (db (tick (env_ok (bitcoin_at 0)) (world0 [alice [below_50000]]))).
       telegramId u' = telegramId (alice [below_50000]) \<and> below_50000 \<in> set (alerts u')) \<and>
   (\<exists>ns. sent (tick (env_ok (bitcoin_at 0)) (world0 [alice [below_50000]]))
            = sent (world0 [alice [below_50000]]) @ ns \<and>
         (\<forall>n\<in>set ns. about n \<noteq> below_50000))"
proof -
  let ?w = "world0 [alice [below_50000]]"
  have h1: "bitcoin_at 0 (coinId below_50000) = Some \<lparr>usd = Num (Fin 0)\<rparr>"
    by (simp add: bitcoin_at_def below_50000_def)
  have h1': "usd \<lparr>usd = Num (Fin 0)\<rparr> = Num (Fin 0)" by simp
  have h2: "distinct (map telegramId (db ?w))" by (simp add: world0_def)
  have h3: "fetch (env_ok (bitcoin_at 0)) ?w (request_ids (users_with_alerts (db ?w)))
              = Inr (bitcoin_at 0)"
    by (simp add: env_ok_def)
  have h4: "alice [below_50000] \<in> set (db ?w)" by (simp add: world0_def)
  have h5: "below_50000 \<in> set (alerts (alice [below_50000]))"
    by (simp add: alice_def)
  have h6: "fired_cond below_50000 (Num (Fin 0))"
    by (simp add: fired_cond_def below_50000_def js_le_def js_ge_def num_le_def)
  from zero_price_treated_as_absent[where data = "bitcoin_at 0" and a = below_50000
      and q = "\<lparr>usd = Num (Fin 0)\<rparr>"
      and w = ?w and e = "env_ok (bitcoin_at 0)"
      and u = "alice [below_50000]", OF h1 h1'] h1 h1' h2 h3 h4 h5 h6
  show ?thesis by blast
qed

section \<open>When an alert fires\<close>

text \<open>
  Claim C2, as stated, fails for a price entry of exactly zero: the \<open>below\<close> alert
  with target 50000 satisfies \<open>price \<le> targetPrice\<close> at price 0, yet it is classified
  as remaining.
\<close>

theorem fires_iff_condition_at_zero_price_counterexample:
  "bitcoin_at 0 (coinId below_50000) = Some \<lparr>usd = Num (Fin 0)\<rparr> \<and>
   direction below_50000 = ''below'' \<and>
   num_le (Fin 0) (targetPrice below_50000) \<and>
   classify (bitcoin_at 0) below_50000 = Remaining"
  by (simp add: bitcoin_at_def below_50000_def num_le_def classify_def usd_at_def)

text \<open>
  Claim C2, amended. For an alert whose coin has a price entry other than zero, the
  checker classifies it as fired if and only if its direction is \<open>above\<close> and the price
  is at least the target, or its direction is \<open>below\<close> and the price is at most the
  target; it is remaining otherwise. On finite values the comparisons are those of the
  numbers, and both include equality: an \<open>above\<close> and a \<open>below\<close> alert with target
  \<open>T\<close> fire at price \<open>T\<close>.
\<close>

theorem fires_iff_condition:
  assumes "data (coinId a) = Some q" and "usd q = Num p" and "p \<noteq> Fin 0"
  shows "((classify data a = Fired (Num p)) =
            (direction a = ''above'' \<and> num_le (targetPrice a) p \<or>
             direction a = ''below'' \<and> num_le p (targetPrice a))) \<and>
         ((classify data a = Remaining) =
            (\<not> (direction a = ''above'' \<and> num_le (targetPrice a) p \<or>
                direction a = ''below'' \<and> num_le p (targetPrice a)))) \<and>
         (\<forall>t x. targetPrice a = Fin t \<and> p = Fin x \<longrightarrow>
            (classify data a = Fired (Num p)) =
              (direction a = ''above'' \<and> t \<le> x \<or> direction a = ''below'' \<and> x \<le> t)) \<and>
         (targetPrice a = p \<and> p \<noteq> NaN \<and> (direction a = ''above'' \<or> direction a = ''below'')
            \<longrightarrow> classify data a = Fired (Num p))"
proof -
  from assms have u: "usd_at data (coinId a) = Num p" by (simp add: usd_at_def)
  let ?c = "direction a = ''above'' \<and> num_le (targetPrice a) p \<or>
            direction a = ''below'' \<and> num_le p (targetPrice a)"
  have fc: "fired_cond a (Num p) = ?c"
    by (simp add: fired_cond_iff js_ge_def js_le_def)
  have nan: "p = NaN \<Longrightarrow> \<not> ?c" by (simp add: num_le_def)
  have c1: "(classify data a = Fired (Num p)) = ?c"
    using u fc nan assms(3) by (auto simp: classify_Fired_iff)
  have c2: "(classify data a = Remaining) = (\<not> ?c)"
    using u fc nan assms(3) by (auto simp: classify_Remaining_iff)
  have c3: "\<forall>t x. targetPrice a = Fin t \<and> p = Fin x \<longrightarrow>
            (classify data a = Fired (Num p)) =
              (direction a = ''above'' \<and> t \<le> x \<or> direction a = ''below'' \<and> x \<le> t)"
    using c1 by (auto simp: num_le_Fin)
  have c4: "targetPrice a = p \<and> p \<noteq> NaN \<and> (direction a = ''above'' \<or> direction a = ''below'')
            \<longrightarrow> classify data a = Fired (Num p)"
    using c1 by (auto simp: num_le_refl)
  from c1 c2 c3 c4 show ?thesis by blast
qed

theorem fires_iff_condition_witness:
  "bitcoin_at 50000 (coinId above_50000) = Some \<lparr>usd = Num (Fin 50000)\<rparr> \<and>
   usd \<lparr>usd = Num (Fin 50000)\<rparr> = Num (Fin 50000) \<and>
   Fin 50000 \<noteq> Fin 0 \<and>
   targetPrice above_50000 = Fin 50000 \<and> direction above_50000 = ''above'' \<and>
   classify (bitcoin_at 50000) above_50000 = Fired (Num (Fin 50000))"
proof -
  have h1: "bitcoin_at 50000 (coinId above_50000) = Some \<lparr>usd = Num (Fin 50000)\<rparr>"
    by (simp add: bitcoin_at_def above_50000_def)
  have h2: "usd \<lparr>usd = Num (Fin 50000)\<rparr> = Num (Fin 50000)" by simp
  have h3: "Fin 50000 \<noteq> Fin 0" by simp
  have h4: "targetPrice above_50000 = Fin 50000" "direction above_50000 = ''above''"
    by (simp_all add: above_50000_def)
  from fires_iff_condition[where data = "bitcoin_at 50000" and a = above_50000
      and q = "\<lparr>usd = Num (Fin 50000)\<rparr>" and p = "Fin 50000", OF h1 h2 h3] h1 h2 h3 h4
  show ?thesis by simp
qed

section \<open>Resolving a symbol\<close>

lemma initCoinList_fold_dom:
  "dom (fold (\<lambda>c m. m(toLowerCase (coin_symbol c) \<mapsto> coin_id c)) catalogue m0) =
     dom m0 \<union> (\<lambda>c. toLowerCase (coin_symbol c)) ` set catalogue"
  by (induction catalogue arbitrary: m0) auto

lemma dom_initCoinList:
  "dom (initCoinList catalogue) = (\<lambda>c. toLowerCase (coin_symbol c)) ` set catalogue"
  by (simp add: initCoinList_def initCoinList_fold_dom)

text \<open>
  Claim C8. Resolving a symbol never fails and is decided by the lowercased input alone:
  when it is a key of the coin map the result is the id stored under it, otherwise the
  result is the lowercased input itself. In particular, for the map that
  \<open>initCoinList\<close> builds, a ticker that is the lowercased symbol of no coin of the
  catalogue is passed through.
\<close>

theorem resolve_lookup_or_passthrough:
  "(\<forall>i. coinMap (toLowerCase x) = Some i \<longrightarrow> resolve coinMap x = i) \<and>
   (coinMap (toLowerCase x) = None \<longrightarrow> resolve coinMap x = toLowerCase x) \<and>
   (toLowerCase x \<notin> (\<lambda>c. toLowerCase (coin_symbol c)) ` set catalogue \<longrightarrow>
      resolve (initCoinList catalogue) x = toLowerCase x)"
proof -
  have "toLowerCase x \<notin> (\<lambda>c. toLowerCase (coin_symbol c)) ` set catalogue \<Longrightarrow>
        initCoinList catalogue (toLowerCase x) = None"
    using dom_initCoinList[of catalogue] by blast
  then show ?thesis by (auto simp: resolve_def)
qed

lemma toLowerCase_BTC: "toLowerCase ''BTC'' = ''btc''"
  by code_simp

lemma toLowerCase_Doge: "toLowerCase ''Doge'' = ''doge''"
  by code_simp

theorem resolve_lookup_or_passthrough_witness:
  "coin_map0 (toLowerCase ''BTC'') = Some ''bitcoin'' \<and>
   resolve coin_map0 ''BTC'' = ''bitcoin'' \<and>
   coin_map0 (toLowerCase ''Doge'') = None \<and>
   resolve coin_map0 ''Doge'' = ''doge'' \<and>
   toLowerCase ''Doge'' \<notin>
     (\<lambda>c. toLowerCase (coin_symbol c)) ` set [\<lparr>coin_symbol = ''btc'', coin_id = ''bitcoin''\<rparr>] \<and>
   resolve (initCoinList [\<lparr>coin_symbol = ''btc'', coin_id = ''bitcoin''\<rparr>]) ''Doge'' = ''doge''"
proof -
  have l: "toLowerCase ''btc'' = ''btc''" by (simp add: toLowerCase_def lower_char_def)
  have h1: "coin_map0 (toLowerCase ''BTC'') = Some ''bitcoin''"
    by (simp add: coin_map0_def initCoinList_def toLowerCase_BTC l)
  have h2: "coin_map0 (toLowerCase ''Doge'') = None"
    by (simp add: coin_map0_def initCoinList_def toLowerCase_Doge l)
  have h3: "toLowerCase ''Doge'' \<notin>
     (\<lambda>c. toLowerCase (coin_symbol c)) ` set [\<lparr>coin_symbol = ''btc'', coin_id = ''bitcoin''\<rparr>]"
    by (simp add: toLowerCase_Doge l)
  from resolve_lookup_or_passthrough[of coin_map0 "''BTC''" "[]"] h1
  have c1: "resolve coin_map0 ''BTC'' = ''bitcoin''" by blast
  from resolve_lookup_or_passthrough[of coin_map0 "''Doge''"
      "[\<lparr>coin_symbol = ''btc'', coin_id = ''bitcoin''\<rparr>]"] h2 h3
  have c2: "resolve coin_map0 ''Doge'' = ''doge''"
    and c3: "resolve (initCoinList [\<lparr>coin_symbol = ''btc'', coin_id = ''bitcoin''\<rparr>]) ''Doge'' = ''doge''"
    by (simp_all add: toLowerCase_Doge)
  from h1 h2 h3 c1 c2 c3 show ?thesis by simp
qed

section \<open>Failures and no-op ticks\<close>

lemma users_loop_all_remaining:
  "\<forall>u\<in>set us. \<forall>a\<in>set (alerts u). classify data a = Remaining \<Longrightarrow>
   users_loop e data us w = Ok () w"
  by (induction us) (simp_all add: process_user_all_remaining)

lemma process_user_Thrown:
  assumes "process_user e data u w = Thrown x w'"
  shows "(x = NotifyError \<or> x = StoreError) \<and> db w' = db w \<and> writes w' = writes w"
proof (cases "alerts_loop e data u (alerts u) (False, []) w")
  case (Thrown y w1)
  with assms have "y = x" "w1 = w'" by (simp_all add: process_user_def)
  with alerts_loop_Thrown[OF Thrown] show ?thesis by simp
next
  case (Ok tr w1)
  obtain t' r' where tr: "tr = (t', r')" by (cases tr)
  note h = alerts_loop_Ok[OF Ok[unfolded tr]]
  from assms Ok tr have "x = StoreError \<and> w' = w1"
    by (auto simp: process_user_def save_def split: if_splits)
  with h show ?thesis by simp
qed

text \<open>
  Claim C3. When the batched price request of a tick fails, the tick is over: nothing
  is sent, nothing is written and no stored user changes; the error is logged and the
  tick ends. The next tick finds the same users with the same alerts, so it starts from
  scratch.
\<close>

theorem price_fetch_failure_aborts_tick:
  assumes "fetch e w (request_ids (users_with_alerts (db w))) = Inl x"
  shows "sent (tick e w) = sent w \<and> writes (tick e w) = writes w \<and> db (tick e w) = db w \<and>
         users_with_alerts (db (tick e w)) = users_with_alerts (db w) \<and>
         (\<not> find_fails e w \<and> users_with_alerts (db w) \<noteq> [] \<longrightarrow>
            tick e w = w\<lparr>errors := errors w @ [x]\<rparr>)"
  using assms by (simp add: tick_def tick_body_def Let_def)

theorem price_fetch_failure_aborts_tick_witness:
  "fetch env_rate_limited (world0 [alice [below_50000], bob [below_40000]])
     (request_ids (users_with_alerts (db (world0 [alice [below_50000], bob [below_40000]]))))
     = Inl RateLimited \<and>
   \<not> find_fails env_rate_limited (world0 [alice [below_50000], bob [below_40000]]) \<and>
   users_with_alerts (db (world0 [alice [below_50000], bob [below_40000]])) \<noteq> [] \<and>
   sent (tick env_rate_limited (world0 [alice [below_50000], bob [below_40000]])) = [] \<and>
   writes (tick env_rate_limited (world0 [alice [below_50000], bob [below_40000]])) = [] \<and>
   db (tick env_rate_limited (world0 [alice [below_50000], bob [below_40000]]))
     = [alice [below_50000], bob [below_40000]] \<and>
   tick env_rate_limited (world0 [alice [below_50000], bob [below_40000]])
     = (world0 [alice [below_50000], bob [below_40000]])\<lparr>errors := [RateLimited]\<rparr>"
proof -
  let ?w = "world0 [alice [below_50000], bob [below_40000]]"
  have h1: "fetch env_rate_limited ?w (request_ids (users_with_alerts (db ?w))) = Inl RateLimited"
    by (simp add: env_rate_limited_def)
  have h2: "\<not> find_fails env_rate_limited ?w" by (simp add: env_rate_limited_def)
  have h3: "users_with_alerts (db ?w) \<noteq> []"
    by (simp add: users_with_alerts_def world0_def alice_def)
  have w: "sent ?w = []" "writes ?w = []" "db ?w = [alice [below_50000], bob [below_40000]]"
    "errors ?w = []"
    by (simp_all add: world0_def)
  from price_fetch_failure_aborts_tick[OF h1] h1 h2 h3 w show ?thesis by simp
qed

text \<open>
  Claim C6. In a tick that got the price response \<open>data\<close>, a user none of whose alerts
  fires is not written back: the stored record is still there, no write of the tick
  carries the user's id and no message goes to the user. When the response has no entry
  for any coin of any alert, nothing at all is sent, written or changed, and a tick whose
  search for users succeeded leaves the world as it was.
\<close>

theorem no_fired_alert_no_write:
  assumes f: "fetch e w (request_ids (users_with_alerts (db w))) = Inr data"
  shows "(distinct (map telegramId (db w)) \<and> u \<in> set (db w) \<and>
          (\<forall>a\<in>set (alerts u). classify data a = Remaining) \<longrightarrow>
            u \<in> set (db (tick e w)) \<and>
            (\<exists>ws. writes (tick e w) = writes w @ ws \<and> (\<forall>x\<in>set ws. telegramId x \<noteq> telegramId u)) \<and>
            (\<exists>ns. sent (tick e w) = sent w @ ns \<and> (\<forall>n\<in>set ns. recipient n \<noteq> telegramId u))) \<and>
         ((\<forall>v\<in>set (db w). \<forall>a\<in>set (alerts v). data (coinId a) = None) \<longrightarrow>
            sent (tick e w) = sent w \<and> writes (tick e w) = writes w \<and> db (tick e w) = db w \<and>
            (\<not> find_fails e w \<longrightarrow> tick e w = w))"
proof (intro conjI impI)
  assume h: "distinct (map telegramId (db w)) \<and> u \<in> set (db w) \<and>
          (\<forall>a\<in>set (alerts u). classify data a = Remaining)"
  then have d: "distinct (map telegramId (db w))" and u: "u \<in> set (db w)"
    and nf: "\<not> fires_for data u"
    by (simp_all add: fires_for_def)
  from d have inj: "inj_on telegramId (set (db w))" by (simp add: distinct_map)
  have same: "v = u" if "v \<in> set (db w)" "telegramId v = telegramId u" for v
    using inj u that by (auto dest: inj_onD)
  from tick_keeps[OF d f u] nf show "u \<in> set (db (tick e w))" by blast
  from tick_writes[OF d f] obtain ws where
    ws: "writes (tick e w) = writes w @ ws"
        "set ws \<subseteq> kept data ` {v \<in> set (db w). fires_for data v}" by blast
  have "\<forall>x\<in>set ws. telegramId x \<noteq> telegramId u"
  proof
    fix x assume "x \<in> set ws"
    with ws(2) obtain v where v: "v \<in> set (db w)" "fires_for data v" "x = kept data v" by blast
    show "telegramId x \<noteq> telegramId u"
    proof
      assume "telegramId x = telegramId u"
      with v have "v = u" by (simp add: same)
      with v nf show False by simp
    qed
  qed
  with ws(1) show "\<exists>ws. writes (tick e w) = writes w @ ws \<and> (\<forall>x\<in>set ws. telegramId x \<noteq> telegramId u)"
    by blast
  from tick_sent[OF d f] obtain ns where
    ns: "sent (tick e w) = sent w @ ns"
        "\<forall>n\<in>set ns. \<exists>v\<in>set (db w). \<exists>a\<in>set (alerts v).
                  classify data a \<noteq> Remaining \<and> n = notice data v a" by blast
  have "\<forall>n\<in>set ns. recipient n \<noteq> telegramId u"
  proof
    fix n assume "n \<in> set ns"
    with ns(2) obtain v a where v: "v \<in> set (db w)" "a \<in> set (alerts v)"
      "classify data a \<noteq> Remaining" "n = notice data v a" by blast
    show "recipient n \<noteq> telegramId u"
    proof
      assume "recipient n = telegramId u"
      with v have "v = u" by (simp add: same notice_def)
      with v nf show False by (auto simp: fires_for_def)
    qed
  qed
  with ns(1) show "\<exists>ns. sent (tick e w) = sent w @ ns \<and> (\<forall>n\<in>set ns. recipient n \<noteq> telegramId u)"
    by blast
next
  assume h: "\<forall>v\<in>set (db w). \<forall>a\<in>set (alerts v). data (coinId a) = None"
  have "\<forall>v\<in>set (users_with_alerts (db w)). \<forall>a\<in>set (alerts v). classify data a = Remaining"
    using h by (auto simp: users_with_alerts_def classify_def usd_at_def)
  then have ul: "users_loop e data (users_with_alerts (db w)) w = Ok () w"
    by (rule users_loop_all_remaining)
  have t: "tick e w = w \<or> tick e w = w\<lparr>errors := errors w @ [StoreError]\<rparr>"
    using f ul by (simp add: tick_def tick_body_def Let_def)
  from t show "sent (tick e w) = sent w" by auto
  from t show "writes (tick e w) = writes w" by auto
  from t show "db (tick e w) = db w" by auto
  show "tick e w = w" if "\<not> find_fails e w"
    using that f ul by (simp add: tick_def tick_body_def Let_def)
qed


theorem no_fired_alert_no_write_witness:
  "fetch (env_ok (bitcoin_at 49000)) (world0 [alice [below_50000], bob [below_40000]])
     (request_ids (users_with_alerts (db (world0 [alice [below_50000], bob [below_40000]]))))
     = Inr (bitcoin_at 49000) \<and>
   distinct (map telegramId (db (world0 [alice [below_50000], bob [below_40000]]))) \<and>
   bob [below_40000] \<in> set (db (world0 [alice [below_50000], bob [below_40000]])) \<and>
   classify (bitcoin_at 49000) below_40000 = Remaining \<and>
   bob [below_40000] \<in>
     set (db (tick (env_ok (bitcoin_at 49000)) (world0 [alice [below_50000], bob [below_40000]]))) \<and>
   (\<exists>ws. writes (tick (env_ok (bitcoin_at 49000)) (world0 [alice [below_50000], bob [below_40000]]))
            = writes (world0 [alice [below_50000], bob [below_40000]]) @ ws \<and>
         (\<forall>x\<in>set ws. telegramId x \<noteq> telegramId (bob [below_40000]))) \<and>
   (\<exists>ns. sent (tick (env_ok (bitcoin_at 49000)) (world0 [alice [below_50000], bob [below_40000]]))
            = sent (world0 [alice [below_50000], bob [below_40000]]) @ ns \<and>
         (\<forall>n\<in>set ns. recipient n \<noteq> telegramId (bob [below_40000]))) \<and>
   fetch (env_ok Map.empty) (world0 [alice [below_50000], bob [below_40000]])
     (request_ids (users_with_alerts (db (world0 [alice [below_50000], bob [below_40000]]))))
     = Inr Map.empty \<and>
   \<not> find_fails (env_ok Map.empty) (world0 [alice [below_50000], bob [below_40000]]) \<and>
   tick (env_ok Map.empty) (world0 [alice [below_50000], bob [below_40000]])
     = world0 [alice [below_50000], bob [below_40000]]"
proof -
  let ?w = "world0 [alice [below_50000], bob [below_40000]]"
  have h1: "fetch (env_ok (bitcoin_at 49000)) ?w (request_ids (users_with_alerts (db ?w)))
              = Inr (bitcoin_at 49000)"
    by (simp add: env_ok_def)
  have h2: "distinct (map telegramId (db ?w))"
    by (simp add: world0_def alice_def bob_def)
  have h3: "bob [below_40000] \<in> set (db ?w)" by (simp add: world0_def)
  have h4: "classify (bitcoin_at 49000) below_40000 = Remaining"
    by (simp add: classify_def usd_at_def bitcoin_at_def below_40000_def fired_cond_def
        js_ge_def js_le_def num_le_def)
  then have h5: "\<forall>a\<in>set (alerts (bob [below_40000])). classify (bitcoin_at 49000) a = Remaining"
    by (simp add: bob_def)
  have g1: "fetch (env_ok Map.empty) ?w (request_ids (users_with_alerts (db ?w))) = Inr Map.empty"
    by (simp add: env_ok_def)
  have g2: "\<forall>v\<in>set (db ?w). \<forall>a\<in>set (alerts v). Map.empty (coinId a) = None" by simp
  have g3: "\<not> find_fails (env_ok Map.empty) ?w" by (simp add: env_ok_def)
  from no_fired_alert_no_write[where e = "env_ok (bitcoin_at 49000)" and w = ?w
      and data = "bitcoin_at 49000" and u = "bob [below_40000]", OF h1] h2 h3 h5
  have c1: "bob [below_40000] \<in> set (db (tick (env_ok (bitcoin_at 49000)) ?w)) \<and>
    (\<exists>ws. writes (tick (env_ok (bitcoin_at 49000)) ?w) = writes ?w @ ws \<and>
         (\<forall>x\<in>set ws. telegramId x \<noteq> telegramId (bob [below_40000]))) \<and>
    (\<exists>ns. sent (tick (env_ok (bitcoin_at 49000)) ?w) = sent ?w @ ns \<and>
         (\<forall>n\<in>set ns. recipient n \<noteq> telegramId (bob [below_40000])))"
    by blast
  from no_fired_alert_no_write[where e = "env_ok Map.empty" and w = ?w
      and data = Map.empty and u = "bob [below_40000]", OF g1] g2 g3
  have c2: "tick (env_ok Map.empty) ?w = ?w" by blast
  from h1 h2 h3 h4 c1 g1 g3 c2 show ?thesis by blast
qed

text \<open>
  Claim C1, as stated, fails. Alice and Bob both hold an alert that fires at 49000, and
  Alice's chat rejects the message. Were Bob the only user he would be notified and
  saved; processed after Alice, he is neither: the rejected delivery leaves the loop
  over the users, and the tick ends with the store unchanged and nothing sent.
\<close>

theorem failure_isolation_counterexample:
  "classify (bitcoin_at 49000) below_50000 = Fired (Num (Fin 49000)) \<and>
   sent (tick (env_blocked ''1'' (bitcoin_at 49000)) (world0 [bob [below_50000]]))
     = [\<lparr>recipient = ''2'', about = below_50000, at_price = Num (Fin 49000)\<rparr>] \<and>
   db (tick (env_blocked ''1'' (bitcoin_at 49000)) (world0 [bob [below_50000]])) = [bob []] \<and>
   tick (env_blocked ''1'' (bitcoin_at 49000)) (world0 [alice [below_50000], bob [below_50000]])
     = \<lparr>db = [alice [below_50000], bob [below_50000]], writes = [], sent = [], replies = [],
        errors = [NotifyError]\<rparr>"
  by code_simp

text \<open>
  Claim C1, amended. The loop over the users runs inside the single \<open>try\<close> of the
  tick. When the users before \<open>u\<close> have been processed and the delivery or the save
  for \<open>u\<close> fails, the tick ends in the world of that moment with the error logged:
  the store and the writes are those left by the earlier users (the record of \<open>u\<close> is
  not saved), the only messages sent after theirs are for alerts of \<open>u\<close>, and no user
  after \<open>u\<close> is evaluated, notified or saved in this tick.
\<close>

theorem failure_ends_tick:
  assumes "\<not> find_fails e w"
    and "users_with_alerts (db w) = us1 @ u # us2"
    and "fetch e w (request_ids (users_with_alerts (db w))) = Inr data"
    and "users_loop e data us1 w = Ok () w1"
    and "process_user e data u w1 = Thrown x w2"
  shows "tick e w = w2\<lparr>errors := errors w2 @ [x]\<rparr> \<and>
         (x = NotifyError \<or> x = StoreError) \<and>
         db (tick e w) = db w1 \<and> writes (tick e w) = writes w1 \<and>
         (\<exists>as'. sent (tick e w) = sent w1 @ map (notice data u) as' \<and>
                set as' \<subseteq> set (alerts u))"
proof -
  from assms(4,5) have "users_loop e data (us1 @ u # us2) w = Thrown x w2"
    by (simp add: users_loop_append)
  with assms(1-3) have t: "tick e w = w2\<lparr>errors := errors w2 @ [x]\<rparr>"
    by (simp add: tick_def tick_body_def Let_def)
  from process_user_step[of data u w1 e] assms(5) have "user_step data u w1 w2" by simp
  then obtain as' where "sent w2 = sent w1 @ map (notice data u) as'" "set as' \<subseteq> set (alerts u)"
    unfolding user_step_def by blast
  with t have "\<exists>as'. sent (tick e w) = sent w1 @ map (notice data u) as' \<and>
                set as' \<subseteq> set (alerts u)"
    by auto
  with t process_user_Thrown[OF assms(5)] show ?thesis by simp
qed

theorem failure_ends_tick_witness:
  "\<not> find_fails (env_blocked ''1'' (bitcoin_at 49000))
       (world0 [alice [below_50000], bob [below_50000]]) \<and>
   users_with_alerts (db (world0 [alice [below_50000], bob [below_50000]]))
     = [] @ alice [below_50000] # [bob [below_50000]] \<and>
   fetch (env_blocked ''1'' (bitcoin_at 49000)) (world0 [alice [below_50000], bob [below_50000]])
     (request_ids (users_with_alerts (db (world0 [alice [below_50000], bob [below_50000]]))))
     = Inr (bitcoin_at 49000) \<and>
   users_loop (env_blocked ''1'' (bitcoin_at 49000)) (bitcoin_at 49000) []
       (world0 [alice [below_50000], bob [below_50000]])
     = Ok () (world0 [alice [below_50000], bob [below_50000]]) \<and>
   process_user (env_blocked ''1'' (bitcoin_at 49000)) (bitcoin_at 49000) (alice [below_50000])
       (world0 [alice [below_50000], bob [below_50000]])
     = Thrown NotifyError (world0 [alice [below_50000], bob [below_50000]]) \<and>
   tick (env_blocked ''1'' (bitcoin_at 49000)) (world0 [alice [below_50000], bob [below_50000]])
     = (world0 [alice [below_50000], bob [below_50000]])
         \<lparr>errors := errors (world0 [alice [below_50000], bob [below_50000]]) @ [NotifyError]\<rparr> \<and>
   db (tick (env_blocked ''1'' (bitcoin_at 49000)) (world0 [alice [below_50000], bob [below_50000]]))
     = db (world0 [alice [below_50000], bob [below_50000]]) \<and>
   sent (tick (env_blocked ''1'' (bitcoin_at 49000)) (world0 [alice [below_50000], bob [below_50000]]))
     = sent (world0 [alice [below_50000], bob [below_50000]])"
proof -
  let ?w = "world0 [alice [below_50000], bob [below_50000]]"
  let ?e = "env_blocked ''1'' (bitcoin_at 49000)"
  have h1: "\<not> find_fails ?e ?w" by (simp add: env_blocked_def)
  have h2: "users_with_alerts (db ?w) = [] @ alice [below_50000] # [bob [below_50000]]"
    by (simp add: users_with_alerts_def world0_def alice_def bob_def)
  have h3: "fetch ?e ?w (request_ids (users_with_alerts (db ?w))) = Inr (bitcoin_at 49000)"
    by (simp add: env_blocked_def)
  have h4: "users_loop ?e (bitcoin_at 49000) [] ?w = Ok () ?w" by simp
  have h5: "process_user ?e (bitcoin_at 49000) (alice [below_50000]) ?w = Thrown NotifyError ?w"
    by code_simp
  from failure_ends_tick[OF h1 h2 h3 h4 h5]
  have c: "tick ?e ?w = ?w\<lparr>errors := errors ?w @ [NotifyError]\<rparr>" by blast
  then have "db (tick ?e ?w) = db ?w" "sent (tick ?e ?w) = sent ?w" by simp_all
  with c h1 h2 h3 h4 h5 show ?thesis by blast
qed

section \<open>The commands\<close>

lemma getUser_Thrown: "getUser e c w = Thrown x w1 \<Longrightarrow> x = StoreError \<and> w1 = w"
  by (auto simp: getUser_def save_def Let_def split: if_splits option.splits)

lemma getUser_Ok:
  "getUser e c w = Ok u w1 \<Longrightarrow>
     \<not> findOne_fails e w (from_id c) \<and>
     (find (\<lambda>u. telegramId u = from_id c) (db w) = Some u \<and> w1 = w \<or>
      find (\<lambda>u. telegramId u = from_id c) (db w) = None \<and>
      u = \<lparr>telegramId = from_id c, firstName = first_name c, favorites = [], alerts = []\<rparr> \<and>
      w1 = w\<lparr>db := store u (db w), writes := writes w @ [u]\<rparr>)"
  by (auto simp: getUser_def save_def Let_def split: if_splits option.splits)

lemma find_Some_mem: "find P xs = Some x \<Longrightarrow> x \<in> set xs \<and> P x"
  by (induction xs) (auto split: if_splits)

lemma getUser_found:
  "\<not> findOne_fails e w (from_id c) \<Longrightarrow> find (\<lambda>u. telegramId u = from_id c) (db w) = Some u \<Longrightarrow>
   getUser e c w = Ok u w"
  by (simp add: getUser_def)

text \<open>An invariant of the documents of one user that a handler keeps.\<close>

lemma store_invariant:
  assumes "\<forall>v\<in>set docs. Q v" and "Q u"
  shows "\<forall>v\<in>set (store u docs). Q v"
  using assms set_store[of u docs] by blast

lemma getUser_invariant:
  assumes g: "getUser e c w = Ok u w1"
    and i: "\<forall>v\<in>set (db w). Q v"
    and n: "Q \<lparr>telegramId = from_id c, firstName = first_name c, favorites = [], alerts = []\<rparr>"
  shows "Q u \<and> (\<forall>v\<in>set (db w1). Q v)"
proof -
  from getUser_Ok[OF g] show ?thesis
  proof (elim conjE disjE)
    assume "find (\<lambda>u. telegramId u = from_id c) (db w) = Some u" "w1 = w"
    with i find_Some_mem[of _ "db w" u] show ?thesis by blast
  next
    assume u: "u = \<lparr>telegramId = from_id c, firstName = first_name c, favorites = [], alerts = []\<rparr>"
      and w1: "w1 = w\<lparr>db := store u (db w), writes := writes w @ [u]\<rparr>"
    from u n have "Q u" by simp
    with store_invariant[OF i this] w1 show ?thesis by simp
  qed
qed

lemma add_cmd_invariant:
  assumes i: "\<forall>v\<in>set (db w). Q v"
    and n: "Q \<lparr>telegramId = from_id c, firstName = first_name c, favorites = [], alerts = []\<rparr>"
    and step: "\<And>u cid. Q u \<Longrightarrow> cid \<notin> set (favorites u) \<Longrightarrow> Q (u\<lparr>favorites := favorites u @ [cid]\<rparr>)"
  shows "\<forall>v\<in>set (db (add_cmd e coinMap c w)). Q v"
proof (cases "nth_opt (split_space (message_text c)) 1")
  case None
  with i show ?thesis by (simp add: add_cmd_def add_body_def ctx_reply_def Let_def)
next
  case (Some rawInput)
  show ?thesis
  proof (cases "rawInput = []")
    case True
    with Some i show ?thesis by (simp add: add_cmd_def add_body_def ctx_reply_def Let_def)
  next
    case ne: False
    let ?cid = "resolve coinMap rawInput"
    show ?thesis
    proof (cases "getUser e c w")
      case (Thrown x w1)
      with getUser_Thrown[OF Thrown] Some ne i show ?thesis
        by (simp add: add_cmd_def add_body_def ctx_reply_def Let_def)
    next
      case (Ok u w1)
      from getUser_invariant[OF Ok i n] have qu: "Q u" and i1: "\<forall>v\<in>set (db w1). Q v" by auto
      show ?thesis
      proof (cases "?cid \<in> set (favorites u)")
        case True
        with Some ne Ok i1 show ?thesis
          by (simp add: add_cmd_def add_body_def ctx_reply_def Let_def)
      next
        case nin: False
        let ?u' = "u\<lparr>favorites := favorites u @ [?cid]\<rparr>"
        from step[OF qu nin] have qu': "Q ?u'" .
        show ?thesis
        proof (cases "save_fails e w1 ?u'")
          case True
          with Some ne Ok nin i1 show ?thesis
            by (simp add: add_cmd_def add_body_def ctx_reply_def Let_def save_def)
        next
          case False
          with Some ne Ok nin have
            "db (add_cmd e coinMap c w) = store ?u' (db w1)"
            by (simp add: add_cmd_def add_body_def ctx_reply_def Let_def save_def)
          with store_invariant[OF i1 qu'] show ?thesis by simp
        qed
      qed
    qed
  qed
qed

text \<open>
  Claim C9. The \<open>add\<close> command keeps the favourites free of duplicates: when no stored
  list has a duplicate before the command, none has one after it, whatever the symbol
  and whatever the store does. When the resolved coin id is already in the sender's
  list, nothing is stored or written and the only effect is the reply (that the coin
  is already watched, or the failure reply when the lookup of the user itself failed).
\<close>

theorem add_keeps_favorites_distinct:
  assumes "\<forall>v\<in>set (db w). distinct (favorites v)"
  shows "(\<forall>v\<in>set (db (add_cmd e coinMap c w)). distinct (favorites v)) \<and>
         (\<forall>u rawInput.
            find (\<lambda>u. telegramId u = from_id c) (db w) = Some u \<and>
            nth_opt (split_space (message_text c)) 1 = Some rawInput \<and> rawInput \<noteq> [] \<and>
            resolve coinMap rawInput \<in> set (favorites u) \<longrightarrow>
              db (add_cmd e coinMap c w) = db w \<and>
              writes (add_cmd e coinMap c w) = writes w \<and>
              replies (add_cmd e coinMap c w) =
                replies w @ [if findOne_fails e w (from_id c) then AddFailed
                             else AlreadyWatching (resolve coinMap rawInput)])"
proof
  show "\<forall>v\<in>set (db (add_cmd e coinMap c w)). distinct (favorites v)"
    by (rule add_cmd_invariant[where Q = "\<lambda>v. distinct (favorites v)", OF assms]) simp_all
next
  show "\<forall>u rawInput.
            find (\<lambda>u. telegramId u = from_id c) (db w) = Some u \<and>
            nth_opt (split_space (message_text c)) 1 = Some rawInput \<and> rawInput \<noteq> [] \<and>
            resolve coinMap rawInput \<in> set (favorites u) \<longrightarrow>
              db (add_cmd e coinMap c w) = db w \<and>
              writes (add_cmd e coinMap c w) = writes w \<and>
              replies (add_cmd e coinMap c w) =
                replies w @ [if findOne_fails e w (from_id c) then AddFailed
                             else AlreadyWatching (resolve coinMap rawInput)]"
  proof (intro allI impI, elim conjE)
    fix u rawInput
    assume f: "find (\<lambda>u. telegramId u = from_id c) (db w) = Some u"
      and p: "nth_opt (split_space (message_text c)) 1 = Some rawInput" "rawInput \<noteq> []"
      and m: "resolve coinMap rawInput \<in> set (favorites u)"
    show "db (add_cmd e coinMap c w) = db w \<and>
              writes (add_cmd e coinMap c w) = writes w \<and>
              replies (add_cmd e coinMap c w) =
                replies w @ [if findOne_fails e w (from_id c) then AddFailed
                             else AlreadyWatching (resolve coinMap rawInput)]"
    proof (cases "findOne_fails e w (from_id c)")
      case True
      then have "getUser e c w = Thrown StoreError w" by (simp add: getUser_def)
      with p True show ?thesis by (simp add: add_cmd_def add_body_def ctx_reply_def Let_def)
    next
      case False
      from getUser_found[OF False f] p m False show ?thesis
        by (simp add: add_cmd_def add_body_def ctx_reply_def Let_def)
    qed
  qed
qed


theorem add_keeps_favorites_distinct_witness:
  "distinct (favorites (alice [])) \<and>
   find (\<lambda>u. telegramId u = from_id (message_from ''1'' ''/add BTC'')) (db (world0 [alice []]))
     = Some (alice []) \<and>
   nth_opt (split_space (message_text (message_from ''1'' ''/add BTC''))) 1 = Some ''BTC'' \<and>
   ''BTC'' \<noteq> [] \<and>
   resolve coin_map0 ''BTC'' \<in> set (favorites (alice [])) \<and>
   db (add_cmd (env_ok Map.empty) coin_map0 (message_from ''1'' ''/add BTC'') (world0 [alice []]))
     = db (world0 [alice []]) \<and>
   writes (add_cmd (env_ok Map.empty) coin_map0 (message_from ''1'' ''/add BTC'') (world0 [alice []]))
     = writes (world0 [alice []]) \<and>
   replies (add_cmd (env_ok Map.empty) coin_map0 (message_from ''1'' ''/add BTC'') (world0 [alice []]))
     = replies (world0 [alice []]) @ [AlreadyWatching ''bitcoin''] \<and>
   list_all (\<lambda>v. distinct (favorites v))
     (db (add_cmd (env_ok Map.empty) coin_map0 (message_from ''1'' ''/add eth'') (world0 [alice []])))"
proof -
  let ?w = "world0 [alice []]"
  let ?c = "message_from ''1'' ''/add BTC''"
  let ?e = "env_ok Map.empty"
  have h0: "distinct (favorites (alice []))" by (simp add: alice_def)
  then have h: "\<forall>v\<in>set (db ?w). distinct (favorites v)" by (simp add: world0_def)
  have h1: "find (\<lambda>u. telegramId u = from_id ?c) (db ?w) = Some (alice [])"
    by (simp add: world0_def alice_def message_from_def)
  have h2: "nth_opt (split_space (message_text ?c)) 1 = Some ''BTC''" by code_simp
  have h3: "''BTC'' \<noteq> []" by simp
  have r: "resolve coin_map0 ''BTC'' = ''bitcoin''" by code_simp
  have h4: "resolve coin_map0 ''BTC'' \<in> set (favorites (alice []))"
    by (simp add: r alice_def)
  have h5: "\<not> findOne_fails ?e ?w (from_id ?c)" by (simp add: env_ok_def)
  from add_keeps_favorites_distinct[where w = ?w and e = ?e and coinMap = coin_map0 and c = ?c,
      OF h] h1 h2 h3 h4
  have c1: "db (add_cmd ?e coin_map0 ?c ?w) = db ?w \<and>
            writes (add_cmd ?e coin_map0 ?c ?w) = writes ?w \<and>
            replies (add_cmd ?e coin_map0 ?c ?w) =
              replies ?w @ [if findOne_fails ?e ?w (from_id ?c) then AddFailed
                            else AlreadyWatching (resolve coin_map0 ''BTC'')]"
    by blast
  from add_keeps_favorites_distinct[where w = ?w and e = ?e and coinMap = coin_map0
      and c = "message_from ''1'' ''/add eth''", OF h]
  have c2: "list_all (\<lambda>v. distinct (favorites v))
     (db (add_cmd ?e coin_map0 (message_from ''1'' ''/add eth'') ?w))"
    by (simp add: list_all_iff)
  from h0 h1 h2 h3 h4 h5 c1 c2 r show ?thesis by simp
qed

lemma alert_cmd_invariant:
  assumes i: "\<forall>v\<in>set (db w). Q v"
    and n: "Q \<lparr>telegramId = from_id c, firstName = first_name c, favorites = [], alerts = []\<rparr>"
    and step: "\<And>u cid T P. Q u \<Longrightarrow> \<not> falsy (Num T) \<Longrightarrow>
                 Q (u\<lparr>alerts := alerts u @ [new_alert cid T P]\<rparr>)"
  shows "\<forall>v\<in>set (db (alert_cmd parseFloat e coinMap c w)). Q v"
proof (cases "nth_opt (split_space (message_text c)) 1")
  case None
  with i show ?thesis by (simp add: alert_cmd_def alert_body_def ctx_reply_def Let_def)
next
  case (Some rawCoin)
  let ?T = "parseFloat (nth_opt (split_space (message_text c)) 2)"
  show ?thesis
  proof (cases "rawCoin = [] \<or> falsy (Num ?T)")
    case True
    with Some i show ?thesis by (simp add: alert_cmd_def alert_body_def ctx_reply_def Let_def)
  next
    case ok: False
    let ?cid = "resolve coinMap rawCoin"
    show ?thesis
    proof (cases "fetch e w ?cid")
      case (Inl x)
      with Some ok i show ?thesis by (simp add: alert_cmd_def alert_body_def ctx_reply_def Let_def)
    next
      case (Inr data)
      show ?thesis
      proof (cases "data ?cid")
        case None
        with Some ok Inr i show ?thesis
          by (simp add: alert_cmd_def alert_body_def ctx_reply_def Let_def)
      next
        case q: (Some q)
        show ?thesis
        proof (cases "getUser e c w")
          case (Thrown x w1)
          with getUser_Thrown[OF Thrown] Some ok Inr q i show ?thesis
            by (simp add: alert_cmd_def alert_body_def ctx_reply_def Let_def)
        next
          case (Ok u w1)
          from getUser_invariant[OF Ok i n] have qu: "Q u" and i1: "\<forall>v\<in>set (db w1). Q v" by auto
          let ?u' = "u\<lparr>alerts := alerts u @ [new_alert ?cid ?T (usd q)]\<rparr>"
          from ok have "\<not> falsy (Num ?T)" by simp
          from step[OF qu this] have qu': "Q ?u'" .
          show ?thesis
          proof (cases "save_fails e w1 ?u'")
            case True
            with Some ok Inr q Ok i1 show ?thesis
              by (simp add: alert_cmd_def alert_body_def ctx_reply_def Let_def save_def)
          next
            case False
            with Some ok Inr q Ok have
              "db (alert_cmd parseFloat e coinMap c w) = store ?u' (db w1)"
              by (simp add: alert_cmd_def alert_body_def ctx_reply_def Let_def save_def)
            with store_invariant[OF i1 qu'] show ?thesis by simp
          qed
        qed
      qed
    qed
  qed
qed

lemma alert_cmd_success:
  assumes "nth_opt (split_space (message_text c)) 1 = Some rawCoin" and "rawCoin \<noteq> []"
    and "parseFloat (nth_opt (split_space (message_text c)) 2) = T" and "\<not> falsy (Num T)"
    and "fetch e w (resolve coinMap rawCoin) = Inr data"
    and "data (resolve coinMap rawCoin) = Some q"
    and "getUser e c w = Ok u w1"
    and "\<not> save_fails e w1 (u\<lparr>alerts := alerts u @ [new_alert (resolve coinMap rawCoin) T (usd q)]\<rparr>)"
  shows "alert_cmd parseFloat e coinMap c w =
           w1\<lparr>db := store (u\<lparr>alerts := alerts u @ [new_alert (resolve coinMap rawCoin) T (usd q)]\<rparr>) (db w1),
              writes := writes w1 @ [u\<lparr>alerts := alerts u @ [new_alert (resolve coinMap rawCoin) T (usd q)]\<rparr>],
              replies := replies w1 @ [AlertSet (resolve coinMap rawCoin) (new_direction T (usd q)) T]\<rparr>"
  using assms
  by (simp add: alert_cmd_def alert_body_def ctx_reply_def Let_def save_def new_alert_def)

lemma js_gt_Fin: "js_gt (Num (Fin t)) (Num (Fin p)) \<longleftrightarrow> p < t"
  by (simp add: js_gt_def)

lemma js_gt_irrefl: "\<not> js_gt (Num T) (Num T)"
  by (cases T) (simp_all add: js_gt_def)

text \<open>
  Claim C5. When the \<open>alert\<close> command creates an alert (symbol and target accepted,
  price found, store working), the record it saves is the sender's with one alert
  appended, whose target is the parsed target \<open>T\<close> and whose direction is \<open>above\<close>
  exactly when \<open>T > P\<close> for the current price \<open>P\<close>, and \<open>below\<close> otherwise; on
  finite values \<open>T > P\<close> is the order of the numbers, and a target equal to the
  current price gives \<open>below\<close>.
\<close>

theorem alert_direction:
  assumes "nth_opt (split_space (message_text c)) 1 = Some rawCoin" and "rawCoin \<noteq> []"
    and "parseFloat (nth_opt (split_space (message_text c)) 2) = T" and "\<not> falsy (Num T)"
    and "fetch e w (resolve coinMap rawCoin) = Inr data"
    and "data (resolve coinMap rawCoin) = Some q"
    and "getUser e c w = Ok u w1"
    and "\<And>u'. \<not> save_fails e w1 u'"
  shows "\<exists>a. writes (alert_cmd parseFloat e coinMap c w) = writes w1 @ [u\<lparr>alerts := alerts u @ [a]\<rparr>] \<and>
             db (alert_cmd parseFloat e coinMap c w) = store (u\<lparr>alerts := alerts u @ [a]\<rparr>) (db w1) \<and>
             coinId a = resolve coinMap rawCoin \<and> targetPrice a = T \<and>
             (direction a = ''above'') = js_gt (Num T) (usd q) \<and>
             (direction a = ''below'') = (\<not> js_gt (Num T) (usd q)) \<and>
             (usd q = Num T \<longrightarrow> direction a = ''below'') \<and>
             (\<forall>t p. T = Fin t \<and> usd q = Num (Fin p) \<longrightarrow> (direction a = ''above'') = (p < t))"
proof -
  let ?a = "new_alert (resolve coinMap rawCoin) T (usd q)"
  have s: "\<not> save_fails e w1 (u\<lparr>alerts := alerts u @ [?a]\<rparr>)" by (rule assms(8))
  note r = alert_cmd_success[where parseFloat = parseFloat and data = data and c = c
      and coinMap = coinMap and e = e and w = w, OF assms(1-7) s]
  have d1: "(direction ?a = ''above'') = js_gt (Num T) (usd q)"
    by (simp add: new_alert_def new_direction_def)
  have d2: "(direction ?a = ''below'') = (\<not> js_gt (Num T) (usd q))"
    by (simp add: new_alert_def new_direction_def)
  have d3: "usd q = Num T \<longrightarrow> direction ?a = ''below''"
    using d2 js_gt_irrefl[of T] by auto
  have d4: "\<forall>t p. T = Fin t \<and> usd q = Num (Fin p) \<longrightarrow> (direction ?a = ''above'') = (p < t)"
    using d1 by (auto simp: js_gt_Fin)
  have "writes (alert_cmd parseFloat e coinMap c w) = writes w1 @ [u\<lparr>alerts := alerts u @ [?a]\<rparr>] \<and>
        db (alert_cmd parseFloat e coinMap c w) = store (u\<lparr>alerts := alerts u @ [?a]\<rparr>) (db w1) \<and>
        coinId ?a = resolve coinMap rawCoin \<and> targetPrice ?a = T"
    by (simp add: r new_alert_def)
  with d1 d2 d3 d4 show ?thesis by blast
qed

theorem alert_direction_witness:
  "nth_opt (split_space (message_text (message_from ''1'' ''/alert btc 60000''))) 1 = Some ''btc'' \<and>
   ''btc'' \<noteq> [] \<and>
   parse_integer (nth_opt (split_space (message_text (message_from ''1'' ''/alert btc 60000''))) 2)
     = Fin 60000 \<and>
   \<not> falsy (Num (Fin 60000)) \<and>
   fetch (env_ok (bitcoin_at 60000)) (world0 [alice []]) (resolve coin_map0 ''btc'')
     = Inr (bitcoin_at 60000) \<and>
   bitcoin_at 60000 (resolve coin_map0 ''btc'') = Some \<lparr>usd = Num (Fin 60000)\<rparr> \<and>
   getUser (env_ok (bitcoin_at 60000)) (message_from ''1'' ''/alert btc 60000'') (world0 [alice []])
     = Ok (alice []) (world0 [alice []]) \<and>
   (\<forall>u'. \<not> save_fails (env_ok (bitcoin_at 60000)) (world0 [alice []]) u') \<and>
   writes (alert_cmd parse_integer (env_ok (bitcoin_at 60000)) coin_map0
             (message_from ''1'' ''/alert btc 60000'') (world0 [alice []]))
     = [alice [\<lparr>coinId = ''bitcoin'', targetPrice = Fin 60000, direction = ''below''\<rparr>]]"
proof -
  let ?c = "message_from ''1'' ''/alert btc 60000''"
  let ?e = "env_ok (bitcoin_at 60000)"
  let ?w = "world0 [alice []]"
  let ?q = "\<lparr>usd = Num (Fin 60000)\<rparr>"
  have r: "resolve coin_map0 ''btc'' = ''bitcoin''" by code_simp
  have h1: "nth_opt (split_space (message_text ?c)) 1 = Some ''btc''" by code_simp
  have h2: "''btc'' \<noteq> []" by simp
  have h3: "parse_integer (nth_opt (split_space (message_text ?c)) 2) = Fin 60000" by code_simp
  have h4: "\<not> falsy (Num (Fin 60000))" by simp
  have h5: "fetch ?e ?w (resolve coin_map0 ''btc'') = Inr (bitcoin_at 60000)"
    by (simp add: env_ok_def)
  have h6: "bitcoin_at 60000 (resolve coin_map0 ''btc'') = Some ?q"
    by (simp add: r bitcoin_at_def)
  have h7: "getUser ?e ?c ?w = Ok (alice []) ?w"
    by (simp add: getUser_def env_ok_def world0_def alice_def message_from_def)
  have h8: "\<not> save_fails ?e ?w u'" for u' by (simp add: env_ok_def)
  from alert_direction[where parseFloat = parse_integer and e = ?e and coinMap = coin_map0
      and c = ?c and w = ?w and data = "bitcoin_at 60000" and q = ?q and u = "alice []"
      and ?w1.0 = ?w and T = "Fin 60000" and rawCoin = "''btc''",
      OF h1 h2 h3 h4 h5 h6 h7 h8]
  obtain a where a: "writes (alert_cmd parse_integer ?e coin_map0 ?c ?w)
        = writes ?w @ [(alice [])\<lparr>alerts := alerts (alice []) @ [a]\<rparr>]"
      "coinId a = resolve coin_map0 ''btc''" "targetPrice a = Fin 60000"
      "usd ?q = Num (Fin 60000) \<longrightarrow> direction a = ''below''"
    by blast
  from a(2-4) r have "a = \<lparr>coinId = ''bitcoin'', targetPrice = Fin 60000, direction = ''below''\<rparr>"
    by (cases a) simp
  with a(1) have c: "writes (alert_cmd parse_integer ?e coin_map0 ?c ?w)
     = [alice [\<lparr>coinId = ''bitcoin'', targetPrice = Fin 60000, direction = ''below''\<rparr>]]"
    by (simp add: world0_def alice_def)
  from h1 h2 h3 h4 h5 h6 h7 h8 c show ?thesis by blast
qed

text \<open>
  Claim C7, as stated, fails: the validation \<open>!targetPrice\<close> rejects only \<open>NaN\<close>
  and zero. The message \<open>/alert btc -5\<close> is accepted and an alert with target \<open>-5\<close>,
  which is not greater than zero, is stored.
\<close>

theorem alert_target_positive_counterexample:
  "db (alert_cmd parse_integer (env_ok (bitcoin_at 60000)) coin_map0
         (message_from ''1'' ''/alert btc -5'') (world0 []))
     = [\<lparr>telegramId = ''1'', firstName = ''Alice'', favorites = [],
         alerts = [\<lparr>coinId = ''bitcoin'', targetPrice = Fin (- 5), direction = ''below''\<rparr>]\<rparr>] \<and>
   \<not> js_gt (Num (Fin (- 5))) (Num (Fin 0))"
  by code_simp

text \<open>
  Claim C7, amended. Every alert the command stores has a target that is a number other
  than zero (it is not \<open>NaN\<close>): when this holds of every stored alert before the
  command, it holds of every stored alert after it, for every message, every result of
  \<open>parseFloat\<close> and every behaviour of the services.
\<close>

theorem alert_target_nonzero:
  assumes "\<forall>v\<in>set (db w). \<forall>a\<in>set (alerts v). targetPrice a \<noteq> NaN \<and> targetPrice a \<noteq> Fin 0"
  shows "\<forall>v\<in>set (db (alert_cmd parseFloat e coinMap c w)).
           \<forall>a\<in>set (alerts v). targetPrice a \<noteq> NaN \<and> targetPrice a \<noteq> Fin 0"
  by (rule alert_cmd_invariant[where Q = "\<lambda>v. \<forall>a\<in>set (alerts v). targetPrice a \<noteq> NaN \<and> targetPrice a \<noteq> Fin 0",
        OF assms]) (auto simp: new_alert_def)

theorem alert_target_nonzero_witness:
  "targetPrice below_50000 \<noteq> NaN \<and> targetPrice below_50000 \<noteq> Fin 0 \<and>
   list_all (\<lambda>v. list_all (\<lambda>a. targetPrice a \<noteq> NaN \<and> targetPrice a \<noteq> Fin 0) (alerts v))
     (db (alert_cmd parse_integer (env_ok (bitcoin_at 60000)) coin_map0
            (message_from ''1'' ''/alert btc -5'') (world0 [alice [below_50000]]))) \<and>
   db (alert_cmd parse_integer (env_ok (bitcoin_at 60000)) coin_map0
            (message_from ''1'' ''/alert btc -5'') (world0 [alice [below_50000]]))
     = [alice [below_50000,
               \<lparr>coinId = ''bitcoin'', targetPrice = Fin (- 5), direction = ''below''\<rparr>]]"
proof -
  let ?w = "world0 [alice [below_50000]]"
  have h0: "targetPrice below_50000 \<noteq> NaN \<and> targetPrice below_50000 \<noteq> Fin 0"
    by (simp add: below_50000_def)
  then have h: "\<forall>v\<in>set (db ?w). \<forall>a\<in>set (alerts v). targetPrice a \<noteq> NaN \<and> targetPrice a \<noteq> Fin 0"
    by (simp add: world0_def alice_def)
  from alert_target_nonzero[where w = ?w and parseFloat = parse_integer
      and e = "env_ok (bitcoin_at 60000)" and coinMap = coin_map0
      and c = "message_from ''1'' ''/alert btc -5''", OF h]
  have c1: "list_all (\<lambda>v. list_all (\<lambda>a. targetPrice a \<noteq> NaN \<and> targetPrice a \<noteq> Fin 0) (alerts v))
     (db (alert_cmd parse_integer (env_ok (bitcoin_at 60000)) coin_map0
            (message_from ''1'' ''/alert btc -5'') ?w))"
    by (simp add: list_all_iff)
  have c2: "db (alert_cmd parse_integer (env_ok (bitcoin_at 60000)) coin_map0
            (message_from ''1'' ''/alert btc -5'') ?w)
     = [alice [below_50000,
               \<lparr>coinId = ''bitcoin'', targetPrice = Fin (- 5), direction = ''below''\<rparr>]]"
    by code_simp
  from h0 c1 c2 show ?thesis by blast
qed

end
